theory Spec2Isabelle
  imports Main
begin

section \<open>Python values, exceptions and effects\<close>

text \<open>
  The script \<^verbatim>\<open>scripts/exhafs_launch.py\<close> is a sequence of calls into collaborators
  (\<^verbatim>\<open>getopt\<close>, \<^verbatim>\<open>hafs.launcher\<close>, \<^verbatim>\<open>produtil\<close>, the conf object) glued by option
  handling, a counter and a loop. The model keeps every statement of \<^verbatim>\<open>main\<close>: each
  call that has an effect outside the process appends an event to a trace, each call that
  can raise returns a sum, and an exception stops the run where Python would stop it.
\<close>

datatype exc =
    SystemExit int
  | GetoptError string
  | AttributeError string string
  | AssertionError string
  | IndexError
  | UnboundLocalError string
  | CollaboratorError string

text \<open>\<^verbatim>\<open>SystemExit\<close> derives from \<^verbatim>\<open>BaseException\<close>, so \<^verbatim>\<open>except Exception\<close> lets it through.\<close>

fun is_Exception :: "exc \<Rightarrow> bool" where
  "is_Exception (SystemExit n) = False"
| "is_Exception e = True"

type_synonym opt = "string \<times> string"

type_synonym moreopt = "(string \<times> string \<times> string) list"

text \<open>
  A collaborator that is handed the \<^verbatim>\<open>usage\<close> callback either returns, calls the callback,
  or raises.
\<close>

datatype 'a reply = Returned 'a | Called_usage | Raised exc

text \<open>The keyword arguments of one \<^verbatim>\<open>hafs.launcher.launch\<close> call. \<open>lc_fakestorm\<close> is
  \<open>True\<close> when the call passes \<^verbatim>\<open>fakestorm=True\<close> and \<open>False\<close> when it leaves the keyword
  out; \<open>lc_fakestorm_conf\<close> is \<open>None\<close> when the keyword is left out or is Python's None.\<close>

record ('conf, 'cyc) launch_call =
  lc_infiles :: "string list"
  lc_cycle :: 'cyc
  lc_stid :: string
  lc_moreopt :: moreopt
  lc_case_root :: string
  lc_fakestorm :: bool
  lc_fakestorm_conf :: "'conf option"
  lc_storm_num :: int

datatype 'cyc logmsg =
    Top_of_launch
  | All_opts_args "opt list" "string list"
  | Args_msg "string list"
  | Storm_lists "string list" "string list"
  | Rocoto_basins "string list"
  | Priority_found "string list"
  | MS_list "string list"
  | Parsing_multistorm "string list"
  | Requested_storm string 'cyc string
  | Holdvars_here string
  | Holdvars_here_as_well string
  | Startfile_here string

datatype ('conf, 'cyc) event =
    Log_info "'cyc logmsg"
  | Log_critical string
  | Print string
  | Call_multistorm_priority "string list" "string list" bool
  | Call_multistorm_parse_args "string list" "string list"
  | Call_parse_launch_args "string list"
  | Call_launch "('conf, 'cyc) launch_call"
  | Call_sanity_check 'conf
  | Call_dbnalert "string list"
  | Open_wt string
  | File_write string string
  | Set_ecflow_event string
  | Setup
  | Postmsg string
  | Jlogger_critical exc

text \<open>An action is the trace it leaves and either the exception that ended it or its value.\<close>

type_synonym ('e, 'a) act = "'e list \<times> (exc + 'a)"

definition ret :: "'a \<Rightarrow> ('e, 'a) act" where
  "ret x = ([], Inr x)"

definition raise :: "exc \<Rightarrow> ('e, 'a) act" where
  "raise e = ([], Inl e)"

definition emit :: "'e \<Rightarrow> ('e, unit) act" where
  "emit ev = ([ev], Inr ())"

definition bind_act :: "('e, 'a) act \<Rightarrow> ('a \<Rightarrow> ('e, 'b) act) \<Rightarrow> ('e, 'b) act" where
  "bind_act m f =
     (case snd m of
        Inl e \<Rightarrow> (fst m, Inl e)
      | Inr x \<Rightarrow> (fst m @ fst (f x), snd (f x)))"

definition then_act :: "('e, 'a) act \<Rightarrow> ('e, 'b) act \<Rightarrow> ('e, 'b) act" where
  "then_act m n = bind_act m (\<lambda>_. n)"

definition lift :: "exc + 'a \<Rightarrow> ('e, 'a) act" where
  "lift r = ([], r)"

definition lift_opt :: "exc option \<Rightarrow> ('e, unit) act" where
  "lift_opt r = (case r of None \<Rightarrow> ret () | Some e \<Rightarrow> raise e)"

section \<open>The collaborators\<close>

text \<open>
  Everything \<^verbatim>\<open>main\<close> calls but does not define is a field of the world it runs in:
  the environment variables it reads, the functions of \<^verbatim>\<open>hafs.launcher\<close> and \<^verbatim>\<open>produtil\<close>,
  the file system.
\<close>

text \<open>
  Modelled from the spec: the methods of the conf object, \<open>sanity_check\<close>, \<open>strinterp\<close>,
  \<open>make_holdvars\<close>, \<open>has_option\<close>, \<open>getstr\<close> and \<open>getbool\<close>, are methods of the launcher
  class in \<^verbatim>\<open>hafs.launcher\<close>, which is not among the sources at hand. The spec treats a
  resolved configuration as read-only once it is layered, so each method is a function of
  the conf and of its arguments, and may raise.
\<close>

record ('conf, 'cyc) world =
  posixly_correct :: bool
  run_envir :: "string option"
  to_datetime :: "string \<Rightarrow> exc + 'cyc"
  multistorm_priority :: "string list \<Rightarrow> string list \<Rightarrow> bool \<Rightarrow> string list reply"
  multistorm_parse_args :: "string list \<Rightarrow> string list \<Rightarrow>
     (string \<times> string \<times> string list \<times> string list \<times> string \<times> string \<times> moreopt list) reply"
  parse_launch_args :: "string list \<Rightarrow>
     (string \<times> string \<times> string list \<times> string \<times> moreopt) reply"
  launch :: "('conf, 'cyc) launch_call \<Rightarrow> exc + 'conf"
  sanity_check :: "'conf \<Rightarrow> exc option"
  strinterp :: "'conf \<Rightarrow> string \<Rightarrow> string \<Rightarrow> (string \<times> string) list \<Rightarrow> exc + string"
  make_holdvars :: "'conf \<Rightarrow> exc + string"
  has_option :: "'conf \<Rightarrow> string \<Rightarrow> string \<Rightarrow> bool"
  getstr :: "'conf \<Rightarrow> string \<Rightarrow> string \<Rightarrow> exc + string"
  getbool :: "'conf \<Rightarrow> string \<Rightarrow> string \<Rightarrow> exc + bool"
  path_exists :: "string \<Rightarrow> bool"
  dbnalert :: "string list \<Rightarrow> exc option"
  open_wt :: "string \<Rightarrow> exc option"
  set_ecflow_event :: "string \<Rightarrow> exc option"

section \<open>Strings\<close>

text \<open>\<^verbatim>\<open>str.upper\<close> on the ASCII letters; every other character is left as it is, which
  decides the comparisons with \<^verbatim>\<open>'NCO'\<close>, \<^verbatim>\<open>'HYCOM'\<close> and \<^verbatim>\<open>'WW3'\<close> the way Python does.\<close>

definition upper_char :: "char \<Rightarrow> char" where
  "upper_char c =
     (case map_of (zip ''abcdefghijklmnopqrstuvwxyz'' ''ABCDEFGHIJKLMNOPQRSTUVWXYZ'') c of
        Some u \<Rightarrow> u
      | None \<Rightarrow> c)"

definition upper :: "string \<Rightarrow> string" where
  "upper s = map upper_char s"

text \<open>\<^verbatim>\<open>v.split(",")\<close>: always at least one piece, empty pieces kept.\<close>

fun split_on :: "char \<Rightarrow> string \<Rightarrow> string list" where
  "split_on c [] = [[]]"
| "split_on c (x # xs) =
     (if x = c then [] # split_on c xs
      else (case split_on c xs of
              w # ws \<Rightarrow> (x # w) # ws
            | [] \<Rightarrow> [[x]]))"

definition startswith :: "string \<Rightarrow> string \<Rightarrow> bool" where
  "startswith s p = (take (length p) s = p)"

definition endswith :: "string \<Rightarrow> string \<Rightarrow> bool" where
  "endswith s p = (length p \<le> length s \<and> drop (length s - length p) s = p)"

section \<open>The standard library's getopt\<close>

text \<open>\<^verbatim>\<open>getopt.short_has_arg\<close>, \<^verbatim>\<open>do_shorts\<close>, \<^verbatim>\<open>long_has_args\<close>, \<^verbatim>\<open>do_longs\<close> and
  \<^verbatim>\<open>gnu_getopt\<close> of CPython 3.11, statement by statement.\<close>

fun short_has_arg :: "char \<Rightarrow> string \<Rightarrow> exc + bool" where
  "short_has_arg opt [] = Inl (GetoptError (''option -'' @ [opt] @ '' not recognized''))"
| "short_has_arg opt (c # rest) =
     (if opt = c \<and> c \<noteq> CHR '':'' then Inr (startswith rest '':'')
      else short_has_arg opt rest)"

fun do_shorts :: "opt list \<Rightarrow> string \<Rightarrow> string \<Rightarrow> string list \<Rightarrow> exc + (opt list \<times> string list)" where
  "do_shorts opts [] shortopts args = Inr (opts, args)"
| "do_shorts opts (opt # optstring) shortopts args =
     (case short_has_arg opt shortopts of
        Inl e \<Rightarrow> Inl e
      | Inr has_arg \<Rightarrow>
          if has_arg then
            (if optstring = [] then
               (case args of
                  [] \<Rightarrow> Inl (GetoptError (''option -'' @ [opt] @ '' requires argument''))
                | a # args' \<Rightarrow> Inr (opts @ [(''-'' @ [opt], a)], args'))
             else Inr (opts @ [(''-'' @ [opt], optstring)], args))
          else do_shorts (opts @ [(''-'' @ [opt], [])]) optstring shortopts args)"

definition long_has_args :: "string \<Rightarrow> string list \<Rightarrow> exc + (bool \<times> string)" where
  "long_has_args opt longopts =
     (let possibilities = filter (\<lambda>o'. startswith o' opt) longopts in
      case possibilities of
        [] \<Rightarrow> Inl (GetoptError (''option --'' @ opt @ '' not recognized''))
      | unique_match # others \<Rightarrow>
          if opt \<in> set possibilities then Inr (False, opt)
          else if opt @ ''='' \<in> set possibilities then Inr (True, opt)
          else if length possibilities > 1
            then Inl (GetoptError (''option --'' @ opt @ '' not a unique prefix''))
          else (let has_arg = endswith unique_match ''='' in
                Inr (has_arg, if has_arg then butlast unique_match else unique_match)))"

definition do_longs :: "opt list \<Rightarrow> string \<Rightarrow> string list \<Rightarrow> string list \<Rightarrow> exc + (opt list \<times> string list)" where
  "do_longs opts opt0 longopts args =
     (let (opt1, optarg) =
            (if CHR ''='' \<in> set opt0
             then (takeWhile (\<lambda>c. c \<noteq> CHR ''='') opt0,
                   Some (drop 1 (dropWhile (\<lambda>c. c \<noteq> CHR ''='') opt0)))
             else (opt0, None))
      in case long_has_args opt1 longopts of
           Inl e \<Rightarrow> Inl e
         | Inr (has_arg, opt) \<Rightarrow>
             if has_arg then
               (case optarg of
                  None \<Rightarrow>
                    (case args of
                       [] \<Rightarrow> Inl (GetoptError (''option --'' @ opt @ '' requires argument''))
                     | a # args' \<Rightarrow> Inr (opts @ [(''--'' @ opt, a)], args'))
                | Some v \<Rightarrow> Inr (opts @ [(''--'' @ opt, v)], args))
             else
               (case optarg of
                  Some v \<Rightarrow> Inl (GetoptError (''option --'' @ opt @ '' must not have an argument''))
                | None \<Rightarrow> Inr (opts @ [(''--'' @ opt, [])], args)))"

lemma do_shorts_length:
  "do_shorts opts s shortopts args = Inr (opts', args') \<Longrightarrow> length args' \<le> length args"
  by (induction s arbitrary: opts) (auto split: sum.splits if_splits list.splits)

lemma do_longs_length:
  "do_longs opts s longopts args = Inr (opts', args') \<Longrightarrow> length args' \<le> length args"
  by (auto simp: do_longs_def Let_def split: sum.splits if_splits list.splits option.splits prod.splits)

function gnu_loop ::
  "bool \<Rightarrow> string \<Rightarrow> string list \<Rightarrow> opt list \<Rightarrow> string list \<Rightarrow> string list
     \<Rightarrow> exc + (opt list \<times> string list)" where
  "gnu_loop all_options_first shortopts longopts opts prog_args [] = Inr (opts, prog_args)"
| "gnu_loop all_options_first shortopts longopts opts prog_args (a # args) =
     (if a = ''--'' then Inr (opts, prog_args @ args)
      else if take 2 a = ''--'' then
        (case do_longs opts (drop 2 a) longopts args of
           Inl e \<Rightarrow> Inl e
         | Inr r \<Rightarrow> gnu_loop all_options_first shortopts longopts (fst r) prog_args (snd r))
      else if take 1 a = ''-'' \<and> a \<noteq> ''-'' then
        (case do_shorts opts (drop 1 a) shortopts args of
           Inl e \<Rightarrow> Inl e
         | Inr r \<Rightarrow> gnu_loop all_options_first shortopts longopts (fst r) prog_args (snd r))
      else if all_options_first then Inr (opts, prog_args @ (a # args))
      else gnu_loop all_options_first shortopts longopts opts (prog_args @ [a]) args)"
  by pat_completeness auto
termination
proof (relation "measure (\<lambda>(f, sh, lo, opts, prog, args). length args)")
  show "wf (measure (\<lambda>(f, sh, lo, opts, prog, args). length args))"
    by simp
next
  fix f :: bool and sh lo opts and prog :: "string list" and a args r
  assume "do_longs opts (drop 2 a) lo args = Inr r"
  then have "length (snd r) \<le> length args"
    using do_longs_length [of opts "drop 2 a" lo args "fst r" "snd r"] by simp
  then show "((f, sh, lo, fst r, prog, snd r), f, sh, lo, opts, prog, a # args)
        \<in> measure (\<lambda>(f, sh, lo, opts, prog, args). length args)"
    by simp
next
  fix f :: bool and sh lo opts and prog :: "string list" and a args r
  assume "do_shorts opts (drop 1 a) sh args = Inr r"
  then have "length (snd r) \<le> length args"
    using do_shorts_length [of opts "drop 1 a" sh args "fst r" "snd r"] by simp
  then show "((f, sh, lo, fst r, prog, snd r), f, sh, lo, opts, prog, a # args)
        \<in> measure (\<lambda>(f, sh, lo, opts, prog, args). length args)"
    by simp
next
  fix f :: bool and sh lo opts and prog :: "string list" and a :: string and args :: "string list"
  show "((f, sh, lo, opts, prog @ [a], args), f, sh, lo, opts, prog, a # args)
        \<in> measure (\<lambda>(f, sh, lo, opts, prog, args). length args)"
    by simp
qed

definition gnu_getopt ::
  "bool \<Rightarrow> string list \<Rightarrow> string \<Rightarrow> string list \<Rightarrow> exc + (opt list \<times> string list)" where
  "gnu_getopt posixly args shortopts longopts =
     (if startswith shortopts ''+'' then gnu_loop True (drop 1 shortopts) longopts [] [] args
      else if posixly then gnu_loop True shortopts longopts [] [] args
      else gnu_loop False shortopts longopts [] [] args)"

section \<open>The script\<close>

subsection \<open>Constants of the module\<close>

definition newline :: char where
  "newline = CHR 0x0A"

definition dquote :: char where
  "dquote = CHR 0x22"

definition join_lines :: "string list \<Rightarrow> string" where
  "join_lines ls = concat (map (\<lambda>l. l @ [newline]) (butlast ls)) @ last ls"

definition startdata :: string where
  "startdata = join_lines
     [[],
      ''# Holdvars file with ksh variables:'',
      ''holdvars='' @ [dquote] @ ''{holdvars}'' @ [dquote],
      [],
      ''# Main conf file:'',
      ''CONFhafs='' @ [dquote] @ ''{CONFhafs}'' @ [dquote],
      [],
      ''# Cycle being run:'',
      ''cycle={YMDH}'',
      [],
      ''# Three character storm ID -- just number and basin letter:'',
      ''stormid3='' @ [dquote] @ ''{vit[stormid3]}'' @ [dquote],
      [],
      ''# Long storm ID:'',
      ''longstormid='' @ [dquote] @ ''{vit[longstormid]}'' @ [dquote],
      []]"

definition usage_text :: string where
  "usage_text = join_lines
     [[],
      ''Usage: exhafs_launch.py 2014062400 95E case_root /path/to/parm [options]'',
      [],
      ''Mandatory arguments:'',
      ''  2014062400 -- the cycle to run'',
      ''  95E -- storm id'',
      ''  case_root -- FORECAST = real-time mode, HISTORY = retrospective mod'',
      ''  /path/to/parm -- location of parm directory where standard conf files'',
      ''      reside'',
      [],
      ''Optional arguments:'',
      ''section.option=value -- override conf options on the command line'',
      ''/path/to/file.conf -- additional conf files to parse'',
      [],
      ''Aborting due to incorrect arguments.'']"

definition short_opts :: string where
  "short_opts = ''m:M:n''"

definition long_opts :: "string list" where
  "long_opts = [''multistorms='', ''multibasins='', ''renumber='']"

subsection \<open>usage\<close>

text \<open>What \<^verbatim>\<open>usage\<close> is handed as its \<^verbatim>\<open>logger\<close> parameter: line 135 passes the logger, line
  132 passes a string, and a string has no method \<^verbatim>\<open>critical\<close>.\<close>

datatype pyarg = Logger | Str string

definition usage :: "pyarg \<Rightarrow> (('conf, 'cyc) event, 'a) act" where
  "usage logger =
     (case logger of
        Logger \<Rightarrow>
          ([Log_critical ''Invalid arguments to exhafs_launch.py.  Aborting.'',
            Print usage_text],
           Inl (SystemExit 2))
      | Str s \<Rightarrow> raise (AttributeError ''str'' ''critical''))"

definition collab ::
  "('conf, 'cyc) event \<Rightarrow> 'a reply \<Rightarrow> (('conf, 'cyc) event, 'a) act" where
  "collab call r =
     then_act (emit call)
       (case r of
          Returned x \<Rightarrow> ret x
        | Called_usage \<Rightarrow> usage Logger
        | Raised e \<Rightarrow> raise e)"

subsection \<open>Lines 142 to 154: the options\<close>

definition scan_opt ::
  "opt \<Rightarrow> string list \<times> string list \<times> bool \<Rightarrow> exc + (string list \<times> string list \<times> bool)" where
  "scan_opt kv st =
     (case (kv, st) of
        ((k, v), (mslist, mblist, renumber)) \<Rightarrow>
          if k = ''-m'' \<or> k = ''--multistorms''
            then Inr (mslist @ split_on CHR '','' v, mblist, renumber)
          else if k = ''-M'' \<or> k = ''--multibasins''
            then Inr (mslist, mblist @ split_on CHR '','' v, renumber)
          else if k = ''-n'' \<or> k = ''--renumber''
            then Inr (mslist, mblist, False)
          else Inl (AssertionError ''UNHANDLED OPTION''))"

text \<open>The \<^verbatim>\<open>for k, v in opts\<close> loop: \<open>scan_opt\<close> is its body.\<close>

fun scan_opts ::
  "opt list \<Rightarrow> string list \<times> string list \<times> bool \<Rightarrow> exc + (string list \<times> string list \<times> bool)" where
  "scan_opts [] st = Inr st"
| "scan_opts (kv # rest) st =
     (case scan_opt kv st of
        Inl e \<Rightarrow> Inl e
      | Inr st' \<Rightarrow> scan_opts rest st')"

subsection \<open>Lines 156 to 183: the storm identifiers of a multistorm run\<close>

text \<open>The loop of lines 179 to 181.\<close>

fun append_new :: "string list \<Rightarrow> string list \<Rightarrow> string list" where
  "append_new multi_sids [] = multi_sids"
| "append_new multi_sids (s # bstorms) =
     append_new (if s \<notin> set multi_sids then multi_sids @ [s] else multi_sids) bstorms"

definition resolve_sids ::
  "('conf, 'cyc) world \<Rightarrow> string list \<Rightarrow> string list \<Rightarrow> string list \<Rightarrow> bool
     \<Rightarrow> (('conf, 'cyc) event, string list \<times> bool) act" where
  "resolve_sids w args mslist mblist renumber =
     (let multi_sids = (if mslist \<noteq> [] then mslist else []);
          go_since_multistorm_sids = (mslist \<noteq> [])
      in if mblist \<noteq> [] then
           (let basins = mblist;
                renumber' = (if multi_sids \<noteq> [] then True else renumber)
            in then_act (emit (Log_info (Rocoto_basins basins)))
                 (bind_act
                    (collab (Call_multistorm_priority args basins renumber')
                       (multistorm_priority w args basins renumber'))
                    (\<lambda>bstorms.
                       then_act (emit (Log_info (Priority_found bstorms)))
                         (ret (append_new multi_sids bstorms, True)))))
         else ret (multi_sids, go_since_multistorm_sids))"

subsection \<open>Lines 185 to 207: the fake storm, or the single storm\<close>

record 'conf entity_set =
  es_case_root :: string
  es_infiles :: "string list"
  es_stids :: "string list"
  es_fake_stid :: "string option"
  es_moreopts :: "moreopt list"
  es_fakestorm_conf :: "'conf option"
  es_global_storm_num :: int

text \<open>\<^verbatim>\<open>moreopts[-1]\<close> and \<^verbatim>\<open>moreopts[i]\<close> raise IndexError out of range.\<close>

definition index_last :: "'a list \<Rightarrow> ('e, 'a) act" where
  "index_last xs = (if xs = [] then raise IndexError else ret (last xs))"

definition index_at :: "'a list \<Rightarrow> nat \<Rightarrow> ('e, 'a) act" where
  "index_at xs i = (if i < length xs then ret (xs ! i) else raise IndexError)"

definition entity_stage ::
  "('conf, 'cyc) world \<Rightarrow> string list \<Rightarrow> 'cyc \<Rightarrow> string list \<Rightarrow> bool
     \<Rightarrow> (('conf, 'cyc) event, 'conf entity_set) act" where
  "entity_stage w args cycle multi_sids go_since_multistorm_sids =
     (if go_since_multistorm_sids then
        then_act (emit (Log_info (Parsing_multistorm multi_sids)))
          (bind_act
             (collab (Call_multistorm_parse_args multi_sids (drop 1 args))
                (multistorm_parse_args w multi_sids (drop 1 args)))
             (\<lambda>(case_root, parm, infiles, stids, fake_stid, priority_stid, moreopts).
                let global_storm_num = 1 in
                bind_act (index_last moreopts)
                  (\<lambda>fake_opts.
                     let call = \<lparr>lc_infiles = infiles, lc_cycle = cycle, lc_stid = fake_stid,
                                 lc_moreopt = fake_opts, lc_case_root = case_root,
                                 lc_fakestorm = True, lc_fakestorm_conf = None,
                                 lc_storm_num = global_storm_num\<rparr>
                     in bind_act (then_act (emit (Call_launch call)) (lift (launch w call)))
                          (\<lambda>fakestorm_conf.
                             ret \<lparr>es_case_root = case_root, es_infiles = infiles,
                                  es_stids = stids, es_fake_stid = Some fake_stid,
                                  es_moreopts = moreopts,
                                  es_fakestorm_conf = Some fakestorm_conf,
                                  es_global_storm_num = global_storm_num\<rparr>))))
      else
        bind_act
          (collab (Call_parse_launch_args (drop 1 args)) (parse_launch_args w (drop 1 args)))
          (\<lambda>(case_root, parm, infiles, stid, moreopt).
             then_act (emit (Log_info (Requested_storm stid cycle case_root)))
               (ret \<lparr>es_case_root = case_root, es_infiles = infiles,
                    es_stids = [stid], es_fake_stid = None,
                    es_moreopts = [moreopt],
                    es_fakestorm_conf = None,
                    es_global_storm_num = 0\<rparr>)))"

subsection \<open>Lines 222 to 246: what is done with one storm's conf\<close>

text \<open>\<^verbatim>\<open>with open(path,'wt') as f: f.write(conf.make_holdvars())\<close>: the file is opened,
  and so created or truncated, before the text is generated.\<close>

definition write_holdvars ::
  "('conf, 'cyc) world \<Rightarrow> 'conf \<Rightarrow> string \<Rightarrow> (('conf, 'cyc) event, unit) act" where
  "write_holdvars w conf path =
     then_act (lift_opt (open_wt w path))
       (then_act (emit (Open_wt path))
          (bind_act (lift (make_holdvars w conf))
             (\<lambda>text. emit (File_write path text))))"

definition write_text ::
  "('conf, 'cyc) world \<Rightarrow> string \<Rightarrow> string \<Rightarrow> (('conf, 'cyc) event, unit) act" where
  "write_text w path text =
     then_act (lift_opt (open_wt w path))
       (then_act (emit (Open_wt path)) (emit (File_write path text)))"

definition nco_alert ::
  "('conf, 'cyc) world \<Rightarrow> 'conf \<Rightarrow> (('conf, 'cyc) event, unit) act" where
  "nco_alert w conf =
     (if upper (case run_envir w of None \<Rightarrow> ''DEV'' | Some v \<Rightarrow> v) = ''NCO'' then
        bind_act (lift (strinterp w conf ''wcoss_fcst_nco'' ''{messages}/message{storm_num}'' []))
          (\<lambda>message.
             bind_act (lift (strinterp w conf ''config'' ''{RUN}_MESSAGE'' []))
               (\<lambda>s. let alert_type = upper s in
                  if path_exists w message then
                    then_act (emit (Call_dbnalert [''MODEL'', alert_type, ''{job}'', message]))
                      (lift_opt (dbnalert w [''MODEL'', alert_type, ''{job}'', message]))
                  else ret ()))
      else ret ())"

text \<open>Lines 231 to 246: the two holdvars files and the start file.\<close>

definition write_artifacts ::
  "('conf, 'cyc) world \<Rightarrow> 'conf \<Rightarrow> (('conf, 'cyc) event, unit) act" where
  "write_artifacts w conf =
     bind_act (lift (strinterp w conf ''dir'' ''{com}/{stormlabel}.holdvars.txt'' []))
       (\<lambda>holdvars.
          then_act (emit (Log_info (Holdvars_here holdvars)))
            (then_act (write_holdvars w conf holdvars)
               (bind_act
                  (lift (strinterp w conf ''dir'' ''{com}/{out_prefix}.{RUN}.holdvars.txt'' []))
                  (\<lambda>holdvars2.
                     then_act (emit (Log_info (Holdvars_here_as_well holdvars2)))
                       (then_act (write_holdvars w conf holdvars2)
                          (if has_option w conf ''config'' ''startfile'' then
                             bind_act (lift (getstr w conf ''config'' ''startfile''))
                               (\<lambda>startfile.
                                  then_act (emit (Log_info (Startfile_here startfile)))
                                    (bind_act
                                       (lift (strinterp w conf ''config'' startdata
                                                [(''holdvars'', holdvars)]))
                                       (\<lambda>startcontents.
                                          write_text w startfile startcontents)))
                           else ret ()))))))"

text \<open>Line 222, lines 224 to 229, lines 231 to 246.\<close>

definition process_conf ::
  "('conf, 'cyc) world \<Rightarrow> 'conf \<Rightarrow> (('conf, 'cyc) event, unit) act" where
  "process_conf w conf =
     then_act (then_act (emit (Call_sanity_check conf)) (lift_opt (sanity_check w conf)))
       (then_act (nco_alert w conf) (write_artifacts w conf))"

subsection \<open>Lines 212 to 220: the loop over the storms\<close>

text \<open>\<open>i\<close> is the index of \<^verbatim>\<open>enumerate\<close>, \<open>global_storm_num\<close> the counter, \<open>conf\<close> the
  variable \<^verbatim>\<open>conf\<close> (\<open>None\<close> while it is unbound).\<close>

fun launch_loop ::
  "('conf, 'cyc) world \<Rightarrow> 'cyc \<Rightarrow> 'conf entity_set \<Rightarrow> nat \<Rightarrow> int \<Rightarrow> 'conf option
     \<Rightarrow> string list \<Rightarrow> (('conf, 'cyc) event, 'conf option) act" where
  "launch_loop w cycle es i global_storm_num conf [] = ret conf"
| "launch_loop w cycle es i global_storm_num conf (stid # rest) =
     (let global_storm_num' = global_storm_num + 1 in
      bind_act
        (if Some stid \<noteq> es_fake_stid es then
           bind_act (index_at (es_moreopts es) i)
             (\<lambda>moreopt.
                let call = \<lparr>lc_infiles = es_infiles es, lc_cycle = cycle, lc_stid = stid,
                            lc_moreopt = moreopt, lc_case_root = es_case_root es,
                            lc_fakestorm = False,
                            lc_fakestorm_conf = es_fakestorm_conf es,
                            lc_storm_num = global_storm_num'\<rparr>
                in then_act (emit (Call_launch call)) (lift (launch w call)))
         else
           (case es_fakestorm_conf es of
              None \<Rightarrow> raise (AttributeError ''NoneType'' ''sanity_check'')
            | Some fakestorm_conf \<Rightarrow> ret fakestorm_conf))
        (\<lambda>conf'.
           then_act (process_conf w conf')
             (launch_loop w cycle es (Suc i) global_storm_num' (Some conf') rest)))"

subsection \<open>Lines 248 to 260: the ecFlow events\<close>

definition signal :: "('conf, 'cyc) world \<Rightarrow> string \<Rightarrow> (('conf, 'cyc) event, unit) act" where
  "signal w name = then_act (emit (Set_ecflow_event name)) (lift_opt (set_ecflow_event w name))"

text \<open>\<^verbatim>\<open>conf.getbool('config',run_key) and conf.getstr('config',model_key).upper()==name\<close>:
  the model is read only when the switch is on.\<close>

definition model_selected ::
  "('conf, 'cyc) world \<Rightarrow> 'conf \<Rightarrow> string \<Rightarrow> string \<Rightarrow> string
     \<Rightarrow> (('conf, 'cyc) event, bool) act" where
  "model_selected w conf run_key model_key name =
     bind_act (lift (getbool w conf ''config'' run_key))
       (\<lambda>switch.
          if switch then
            bind_act (lift (getstr w conf ''config'' model_key))
              (\<lambda>model. ret (upper model = name))
          else ret False)"

definition notify ::
  "('conf, 'cyc) world \<Rightarrow> 'conf option \<Rightarrow> (('conf, 'cyc) event, unit) act" where
  "notify w conf_var =
     (case conf_var of
        None \<Rightarrow> raise (UnboundLocalError ''conf'')
      | Some conf \<Rightarrow>
          bind_act (lift (getbool w conf ''config'' ''run_gsi''))
            (\<lambda>Gsi.
               then_act (if Gsi then signal w ''Analysis'' else ret ())
                 (bind_act (model_selected w conf ''run_ocean'' ''ocean_model'' ''HYCOM'')
                    (\<lambda>Hycom.
                       then_act (if Hycom then signal w ''Ocean'' else ret ())
                         (bind_act (model_selected w conf ''run_wave'' ''wave_model'' ''WW3'')
                            (\<lambda>Wave. if Wave then signal w ''Wave'' else ret ()))))))"

subsection \<open>main and the script\<close>

text \<open>Lines 183 to 260, once the storm identifiers of a multistorm run are known.\<close>

definition launch_storms ::
  "('conf, 'cyc) world \<Rightarrow> string list \<Rightarrow> 'cyc \<Rightarrow> string list \<Rightarrow> bool
     \<Rightarrow> (('conf, 'cyc) event, unit) act" where
  "launch_storms w args cycle multi_sids go_since_multistorm_sids =
     then_act (emit (Log_info (MS_list multi_sids)))
       (bind_act (entity_stage w args cycle multi_sids go_since_multistorm_sids)
          (\<lambda>es.
             bind_act
               (launch_loop w cycle es 0 (es_global_storm_num es) None (es_stids es))
               (notify w)))"

text \<open>Lines 137 to 260, once the argument count has been checked.\<close>

definition launch_cycle ::
  "('conf, 'cyc) world \<Rightarrow> opt list \<Rightarrow> string list \<Rightarrow> (('conf, 'cyc) event, unit) act" where
  "launch_cycle w opts args =
     bind_act (index_at args 0)
       (\<lambda>arg0.
          bind_act (lift (to_datetime w arg0))
            (\<lambda>cycle.
               then_act (emit (Log_info (All_opts_args opts args)))
                 (bind_act (lift (scan_opts opts ([], [], True)))
                    (\<lambda>(mslist, mblist, renumber).
                       then_act (emit (Log_info (Args_msg (drop 1 args))))
                         (then_act (emit (Log_info (Storm_lists mslist mblist)))
                            (bind_act (resolve_sids w args mslist mblist renumber)
                               (\<lambda>(multi_sids, go_since_multistorm_sids).
                                  launch_storms w args cycle multi_sids
                                    go_since_multistorm_sids)))))))"

text \<open>Lines 134 to 135 and what follows them.\<close>

definition checked_cycle ::
  "('conf, 'cyc) world \<Rightarrow> opt list \<Rightarrow> string list \<Rightarrow> (('conf, 'cyc) event, unit) act" where
  "checked_cycle w opts args =
     (if length args < 4 then usage Logger else launch_cycle w opts args)"

definition main :: "('conf, 'cyc) world \<Rightarrow> string list \<Rightarrow> (('conf, 'cyc) event, unit) act" where
  "main w argv =
     then_act (emit (Log_info Top_of_launch))
       (case gnu_getopt (posixly_correct w) argv short_opts long_opts of
          Inl (GetoptError msg) \<Rightarrow>
            then_act (emit (Print msg))
              (usage (Str ''SCRIPT IS ABORTING DUE TO UNRECOGNIZED ARGUMENT''))
        | Inl e \<Rightarrow> raise e
        | Inr (opts, args) \<Rightarrow> checked_cycle w opts args)"

text \<open>Lines 262 to 271: the trace of the process and its exit status.\<close>

definition script :: "('conf, 'cyc) world \<Rightarrow> string list \<Rightarrow> ('conf, 'cyc) event list \<times> int" where
  "script w argv =
     (case then_act (emit Setup)
             (then_act (emit (Postmsg ''exhafs_launch is starting''))
                (then_act (main w argv) (emit (Postmsg ''exhafs_launch completed'')))) of
        (tr, Inr u) \<Rightarrow> (tr, 0)
      | (tr, Inl (SystemExit n)) \<Rightarrow> (tr, n)
      | (tr, Inl e) \<Rightarrow> (tr @ [Jlogger_critical e], 2))"

section \<open>Reading a trace\<close>

text \<open>The calls of one kind that a trace holds, in the order they were made.\<close>

definition priority_calls ::
  "('conf, 'cyc) event list \<Rightarrow> (string list \<times> string list \<times> bool) list" where
  "priority_calls tr = [(a, b, r). Call_multistorm_priority a b r \<leftarrow> tr]"

definition parse_args_calls ::
  "('conf, 'cyc) event list \<Rightarrow> (string list \<times> string list) list" where
  "parse_args_calls tr = [(s, a). Call_multistorm_parse_args s a \<leftarrow> tr]"

definition launch_calls :: "('conf, 'cyc) event list \<Rightarrow> ('conf, 'cyc) launch_call list" where
  "launch_calls tr = [c. Call_launch c \<leftarrow> tr]"

definition sanity_checked :: "('conf, 'cyc) event list \<Rightarrow> 'conf list" where
  "sanity_checked tr = [c. Call_sanity_check c \<leftarrow> tr]"

definition file_writes :: "('conf, 'cyc) event list \<Rightarrow> (string \<times> string) list" where
  "file_writes tr = [(p, t). File_write p t \<leftarrow> tr]"

text \<open>An action all of whose events satisfy a predicate.\<close>

definition emits_only :: "('e \<Rightarrow> bool) \<Rightarrow> ('e, 'a) act \<Rightarrow> bool" where
  "emits_only P m = (\<forall>e \<in> set (fst m). P e)"

definition not_resolver :: "('conf, 'cyc) event \<Rightarrow> bool" where
  "not_resolver e =
     (case e of
        Call_multistorm_priority a b r \<Rightarrow> False
      | Call_multistorm_parse_args s a \<Rightarrow> False
      | _ \<Rightarrow> True)"

definition not_launch :: "('conf, 'cyc) event \<Rightarrow> bool" where
  "not_launch e = (case e of Call_launch c \<Rightarrow> False | _ \<Rightarrow> True)"

definition not_sanity :: "('conf, 'cyc) event \<Rightarrow> bool" where
  "not_sanity e = (case e of Call_sanity_check c \<Rightarrow> False | _ \<Rightarrow> True)"

definition not_write :: "('conf, 'cyc) event \<Rightarrow> bool" where
  "not_write e = (case e of File_write p t \<Rightarrow> False | _ \<Rightarrow> True)"

section \<open>What the claims speak of\<close>

text \<open>The option names \<^verbatim>\<open>gnu_getopt\<close> can hand back for \<open>short_opts\<close> and \<open>long_opts\<close>.\<close>

definition known_key :: "string \<Rightarrow> bool" where
  "known_key k = (k = ''-m'' \<or> k = ''--multistorms'' \<or> k = ''-M'' \<or> k = ''--multibasins''
                   \<or> k = ''-n'' \<or> k = ''--renumber'')"

text \<open>An option was given, under its short or its long name.\<close>

definition given :: "string \<Rightarrow> string \<Rightarrow> opt list \<Rightarrow> bool" where
  "given short long opts = list_ex (\<lambda>kv. fst kv = short \<or> fst kv = long) opts"

text \<open>The multi-entity list and the multi-group list of a command line: the comma-separated
  values of every \<^verbatim>\<open>-m\<close> and of every \<^verbatim>\<open>-M\<close>, in command-line order.\<close>

definition listed :: "string \<Rightarrow> string \<Rightarrow> opt list \<Rightarrow> string list" where
  "listed short long opts =
     concat (map (\<lambda>kv. if fst kv = short \<or> fst kv = long
                        then split_on CHR '','' (snd kv) else []) opts)"

definition storms_of :: "opt list \<Rightarrow> string list" where
  "storms_of opts = listed ''-m'' ''--multistorms'' opts"

definition basins_of :: "opt list \<Rightarrow> string list" where
  "basins_of opts = listed ''-M'' ''--multibasins'' opts"




text \<open>The start file of a conf that has the option \<^verbatim>\<open>config.startfile\<close>.\<close>

definition startfile_writes ::
  "('conf, 'cyc) world \<Rightarrow> 'conf \<Rightarrow> string \<Rightarrow> (string \<times> string) list" where
  "startfile_writes w conf holdvars =
     (if has_option w conf ''config'' ''startfile'' then
        (case (getstr w conf ''config'' ''startfile'',
               strinterp w conf ''config'' startdata [(''holdvars'', holdvars)]) of
           (Inr startfile, Inr startcontents) \<Rightarrow> [(startfile, startcontents)]
         | _ \<Rightarrow> [])
      else [])"

text \<open>The launch call the loop makes for the storm at index \<open>k\<close> of the entity set, when the
  storm at index 0 is given the number \<open>first\<close>; and the conf the loop works on for that storm,
  which is the fake storm's conf when the storm is the fake storm.\<close>

definition loop_call ::
  "'cyc \<Rightarrow> 'conf entity_set \<Rightarrow> int \<Rightarrow> nat \<Rightarrow> string \<Rightarrow> ('conf, 'cyc) launch_call" where
  "loop_call cycle es first k stid =
     \<lparr>lc_infiles = es_infiles es, lc_cycle = cycle, lc_stid = stid,
      lc_moreopt = es_moreopts es ! k, lc_case_root = es_case_root es,
      lc_fakestorm = False, lc_fakestorm_conf = es_fakestorm_conf es,
      lc_storm_num = first + int k\<rparr>"




text \<open>The winners that are appended to the multi-entity list: in the order the resolver
  returned them, leaving out any that is already present.\<close>

fun new_winners :: "string list \<Rightarrow> string list \<Rightarrow> string list" where
  "new_winners present [] = []"
| "new_winners present (b # bstorms) =
     (if b \<in> set present then new_winners present bstorms
      else b # new_winners (present @ [b]) bstorms)"

text \<open>The value of \<^verbatim>\<open>renumber\<close> that reaches the priority resolver.\<close>

definition renumber_passed :: "opt list \<Rightarrow> bool" where
  "renumber_passed opts =
     (given ''-m'' ''--multistorms'' opts \<or> \<not> given ''-n'' ''--renumber'' opts)"

text \<open>What is left of a run for an observer who does not read the option list echoed by the
  log record of line 140.\<close>

fun hide_opts :: "('conf, 'cyc) event \<Rightarrow> ('conf, 'cyc) event" where
  "hide_opts (Log_info (All_opts_args opts args)) = Log_info (All_opts_args [] args)"
| "hide_opts e = e"

definition renumber_free :: "opt list \<Rightarrow> opt list" where
  "renumber_free opts = filter (\<lambda>kv. fst kv \<noteq> ''-n'' \<and> fst kv \<noteq> ''--renumber'') opts"

text \<open>The entity set of a run for one storm, lines 201 to 204: the storm of the command line
  alone, no fake storm, no fake conf, the counter at 0.\<close>

definition single_entity_set ::
  "string \<Rightarrow> string list \<Rightarrow> string \<Rightarrow> moreopt \<Rightarrow> 'conf entity_set" where
  "single_entity_set case_root infiles stid moreopt =
     \<lparr>es_case_root = case_root, es_infiles = infiles, es_stids = [stid],
      es_fake_stid = None, es_moreopts = [moreopt], es_fakestorm_conf = None,
      es_global_storm_num = 0\<rparr>"

section \<open>A world to run the script in\<close>

text \<open>A small world for evaluating the script on concrete command lines: a conf is the storm
  it was launched for and the number it was launched with; the priority resolver answers
  \<^verbatim>\<open>['09L', '18E']\<close>; the fake storm is \<^verbatim>\<open>00L\<close>.\<close>

definition demo_world :: "(string \<times> int, string) world" where
  "demo_world =
     \<lparr>posixly_correct = False,
      run_envir = None,
      to_datetime = (\<lambda>s. Inr s),
      multistorm_priority = (\<lambda>args basins renumber. Returned [''09L'', ''18E'']),
      multistorm_parse_args =
        (\<lambda>sids args.
           case args of
             stid # case_root # parm # rest \<Rightarrow>
               Returned (case_root, parm, rest, sids, ''00L'', ''09L'',
                         map (\<lambda>s. [(''config'', ''stid'', s)]) (sids @ [''00L'']))
           | _ \<Rightarrow> Called_usage),
      parse_launch_args =
        (\<lambda>args.
           case args of
             stid # case_root # parm # rest \<Rightarrow> Returned (case_root, parm, rest, stid, [])
           | _ \<Rightarrow> Called_usage),
      launch = (\<lambda>c. Inr (lc_stid c, lc_storm_num c)),
      sanity_check = (\<lambda>c. None),
      strinterp = (\<lambda>c sec tmpl kw. Inr (fst c @ '':'' @ tmpl)),
      make_holdvars = (\<lambda>c. Inr (''stormid3='' @ fst c)),
      has_option = (\<lambda>c sec k. False),
      getstr = (\<lambda>c sec k. Inr ''hycom''),
      getbool = (\<lambda>c sec k. Inr (k = ''run_ocean'')),
      path_exists = (\<lambda>p. False),
      dbnalert = (\<lambda>a. None),
      open_wt = (\<lambda>p. None),
      set_ecflow_event = (\<lambda>n. None)\<rparr>"

definition demo_args :: "string list" where
  "demo_args = [''2014062400'', ''12L'', ''HISTORY'', ''/parm'']"


definition demo_conf :: "string \<times> int" where
  "demo_conf = (''12L'', 1)"



section \<open>Running actions\<close>

lemma bind_act_simps [simp]:
  "bind_act (tr, Inl e) f = (tr, Inl e)"
  "bind_act (tr, Inr x) f = (tr @ fst (f x), snd (f x))"
  by (simp_all add: bind_act_def)

lemma then_act_simps [simp]:
  "then_act (tr, Inl e) n = (tr, Inl e)"
  "then_act (tr, Inr x) n = (tr @ fst n, snd n)"
  by (simp_all add: then_act_def)

lemmas act_defs = ret_def raise_def emit_def lift_def

lemma fst_bind_act:
  "fst (bind_act m f) = fst m @ (case snd m of Inl e \<Rightarrow> [] | Inr x \<Rightarrow> fst (f x))"
  by (simp add: bind_act_def split: sum.splits)

lemma snd_bind_act:
  "snd (bind_act m f) = (case snd m of Inl e \<Rightarrow> Inl e | Inr x \<Rightarrow> snd (f x))"
  by (simp add: bind_act_def split: sum.splits)

lemma bind_act_Inr_iff:
  "bind_act m f = (tr, Inr y) \<longleftrightarrow>
     (\<exists>tr1 x tr2. m = (tr1, Inr x) \<and> f x = (tr2, Inr y) \<and> tr = tr1 @ tr2)"
  by (cases m; cases "snd m") (auto simp: bind_act_def prod_eq_iff)

lemma bind_act_InrE:
  assumes "bind_act m f = (tr, Inr y)"
  obtains tr1 x tr2 where "m = (tr1, Inr x)" "f x = (tr2, Inr y)" "tr = tr1 @ tr2"
  using assms unfolding bind_act_Inr_iff by blast

lemma then_act_InrE:
  assumes "then_act m n = (tr, Inr y)"
  obtains tr1 x tr2 where "m = (tr1, Inr x)" "n = (tr2, Inr y)" "tr = tr1 @ tr2"
  using assms unfolding then_act_def by (elim bind_act_InrE) blast

lemma lift_opt_Inr: "lift_opt r = (tr, Inr u) \<longleftrightarrow> r = None \<and> tr = []"
  by (cases r) (auto simp: lift_opt_def act_defs)

subsection \<open>Projections of a trace\<close>

lemma priority_calls_simps [simp]:
  "priority_calls [] = []"
  "priority_calls (e # tr) =
     (case e of Call_multistorm_priority a b r \<Rightarrow> [(a, b, r)] | _ \<Rightarrow> []) @ priority_calls tr"
  "priority_calls (tr @ tr') = priority_calls tr @ priority_calls tr'"
  by (simp_all add: priority_calls_def split: event.splits)

lemma parse_args_calls_simps [simp]:
  "parse_args_calls [] = []"
  "parse_args_calls (e # tr) =
     (case e of Call_multistorm_parse_args s a \<Rightarrow> [(s, a)] | _ \<Rightarrow> []) @ parse_args_calls tr"
  "parse_args_calls (tr @ tr') = parse_args_calls tr @ parse_args_calls tr'"
  by (simp_all add: parse_args_calls_def split: event.splits)

lemma launch_calls_simps [simp]:
  "launch_calls [] = []"
  "launch_calls (e # tr) = (case e of Call_launch c \<Rightarrow> [c] | _ \<Rightarrow> []) @ launch_calls tr"
  "launch_calls (tr @ tr') = launch_calls tr @ launch_calls tr'"
  by (simp_all add: launch_calls_def split: event.splits)

lemma sanity_checked_simps [simp]:
  "sanity_checked [] = []"
  "sanity_checked (e # tr) =
     (case e of Call_sanity_check c \<Rightarrow> [c] | _ \<Rightarrow> []) @ sanity_checked tr"
  "sanity_checked (tr @ tr') = sanity_checked tr @ sanity_checked tr'"
  by (simp_all add: sanity_checked_def split: event.splits)

lemma file_writes_simps [simp]:
  "file_writes [] = []"
  "file_writes (e # tr) = (case e of File_write p t \<Rightarrow> [(p, t)] | _ \<Rightarrow> []) @ file_writes tr"
  "file_writes (tr @ tr') = file_writes tr @ file_writes tr'"
  by (simp_all add: file_writes_def split: event.splits)

lemma no_resolver_calls:
  "\<forall>e \<in> set tr. not_resolver e \<Longrightarrow> priority_calls tr = [] \<and> parse_args_calls tr = []"
  by (induction tr) (auto simp: not_resolver_def split: event.splits)

lemma no_launch_calls: "\<forall>e \<in> set tr. not_launch e \<Longrightarrow> launch_calls tr = []"
  by (induction tr) (auto simp: not_launch_def split: event.splits)


lemma no_file_writes: "\<forall>e \<in> set tr. not_write e \<Longrightarrow> file_writes tr = []"
  by (induction tr) (auto simp: not_write_def split: event.splits)

subsection \<open>What an action can emit\<close>

lemma emits_only_bind:
  "emits_only P m \<Longrightarrow> (\<And>x. emits_only P (f x)) \<Longrightarrow> emits_only P (bind_act m f)"
  by (auto simp: emits_only_def fst_bind_act split: sum.splits)

lemma emits_only_then:
  "emits_only P m \<Longrightarrow> emits_only P n \<Longrightarrow> emits_only P (then_act m n)"
  by (simp add: then_act_def emits_only_bind)

lemma emits_only_atoms:
  "emits_only P (ret x)" "emits_only P (raise e)" "emits_only P (lift r)"
  "emits_only P (lift_opt r')" "P ev \<Longrightarrow> emits_only P (emit ev)"
  by (simp_all add: emits_only_def act_defs lift_opt_def split: option.splits)

lemma emits_only_if:
  "(b \<Longrightarrow> emits_only P m) \<Longrightarrow> (\<not> b \<Longrightarrow> emits_only P n) \<Longrightarrow> emits_only P (if b then m else n)"
  by simp

lemma emits_only_prod:
  "(\<And>a b. emits_only P (f a b)) \<Longrightarrow> emits_only P (case p of (a, b) \<Rightarrow> f a b)"
  by (cases p) simp

lemma emits_only_option:
  "emits_only P n \<Longrightarrow> (\<And>x. emits_only P (f x)) \<Longrightarrow>
   emits_only P (case v of None \<Rightarrow> n | Some x \<Rightarrow> f x)"
  by (cases v) simp_all

lemma emits_only_usage:
  "P (Log_critical ''Invalid arguments to exhafs_launch.py.  Aborting.'') \<Longrightarrow>
   P (Print usage_text) \<Longrightarrow> emits_only P (usage logger)"
  by (cases logger) (simp_all add: usage_def emits_only_def act_defs)

lemma emits_only_collab:
  "P call \<Longrightarrow> P (Log_critical ''Invalid arguments to exhafs_launch.py.  Aborting.'') \<Longrightarrow>
   P (Print usage_text) \<Longrightarrow> emits_only P (collab call r)"
  unfolding collab_def
  by (cases r) (auto intro!: emits_only_then emits_only_atoms emits_only_usage)

lemmas emits_only_intros =
  emits_only_bind emits_only_then emits_only_atoms emits_only_if emits_only_prod
  emits_only_option

lemma signal_quiet:
  "emits_only (\<lambda>e. not_launch e \<and> not_resolver e \<and> not_sanity e \<and> not_write e) (signal w name)"
  unfolding signal_def
  by (intro emits_only_intros) (simp add: not_launch_def not_resolver_def not_sanity_def not_write_def)

lemma notify_quiet:
  "emits_only (\<lambda>e. not_launch e \<and> not_resolver e \<and> not_sanity e \<and> not_write e) (notify w c)"
  unfolding notify_def model_selected_def
  by (intro emits_only_intros signal_quiet)

lemma nco_alert_quiet:
  "emits_only (\<lambda>e. not_launch e \<and> not_resolver e \<and> not_sanity e \<and> not_write e) (nco_alert w conf)"
  unfolding nco_alert_def Let_def
  by (intro emits_only_intros)
     (simp_all add: not_launch_def not_resolver_def not_sanity_def not_write_def)

lemma write_artifacts_quiet:
  "emits_only (\<lambda>e. not_launch e \<and> not_resolver e \<and> not_sanity e) (write_artifacts w conf)"
  unfolding write_artifacts_def write_holdvars_def write_text_def
  by (intro emits_only_intros)
     (simp_all add: not_launch_def not_resolver_def not_sanity_def)

lemma process_conf_quiet:
  "emits_only (\<lambda>e. not_launch e \<and> not_resolver e) (process_conf w conf)"
proof -
  have "emits_only (\<lambda>e. not_launch e \<and> not_resolver e) (nco_alert w conf)"
    using nco_alert_quiet [of w conf] by (simp add: emits_only_def)
  moreover have "emits_only (\<lambda>e. not_launch e \<and> not_resolver e) (write_artifacts w conf)"
    using write_artifacts_quiet [of w conf] by (simp add: emits_only_def)
  ultimately show ?thesis
    unfolding process_conf_def
    by (intro emits_only_intros) (simp_all add: not_launch_def not_resolver_def)
qed


lemma launch_loop_quiet:
  "emits_only not_resolver (launch_loop w cycle es i n c stids)"
proof (induction stids arbitrary: i n c)
  case Nil
  show ?case by (simp add: emits_only_atoms)
next
  case (Cons stid rest)
  have p: "emits_only not_resolver (process_conf w conf)" for conf
    using process_conf_quiet [of w conf] by (auto simp: emits_only_def)
  show ?case
    unfolding launch_loop.simps Let_def index_at_def
    by (intro emits_only_intros p Cons.IH) (simp_all add: not_resolver_def)
qed

subsection \<open>The loop over the storms\<close>



section \<open>The options getopt hands back\<close>

lemma short_has_arg_known:
  "short_has_arg c short_opts = Inr b \<Longrightarrow> known_key (''-'' @ [c])"
  by (auto simp: short_opts_def known_key_def split: if_splits)

lemma do_shorts_known:
  "do_shorts opts s short_opts args = Inr (opts', args') \<Longrightarrow>
   \<forall>kv \<in> set opts. known_key (fst kv) \<Longrightarrow> \<forall>kv \<in> set opts'. known_key (fst kv)"
proof (induction s arbitrary: opts)
  case Nil
  then show ?case by simp
next
  case (Cons c s)
  from Cons.prems(1) obtain b where b: "short_has_arg c short_opts = Inr b"
    by (auto split: sum.splits)
  then have k: "known_key (''-'' @ [c])" by (rule short_has_arg_known)
  show ?case
  proof (cases b)
    case True
    with Cons.prems b k show ?thesis
      by (auto split: if_splits list.splits)
  next
    case False
    with Cons.prems b have "do_shorts (opts @ [(''-'' @ [c], [])]) s short_opts args = Inr (opts', args')"
      by simp
    moreover have "\<forall>kv \<in> set (opts @ [(''-'' @ [c], [])]). known_key (fst kv)"
      using Cons.prems(2) k by auto
    ultimately show ?thesis by (rule Cons.IH)
  qed
qed


lemma endswith_butlast:
  assumes "endswith u ''=''"
  shows "butlast u @ ''='' = u"
proof -
  from assms have len: "1 \<le> length u" and d: "drop (length u - 1) u = ''=''"
    by (simp_all add: endswith_def)
  from len have ne: "u \<noteq> []" by auto
  have "last u = last (drop (length u - 1) u)"
    using ne by (simp add: last_drop)
  then have "last u = CHR ''=''" using d by simp
  then show ?thesis using ne append_butlast_last_id [of u] by simp
qed

lemma long_has_args_full:
  assumes "long_has_args opt longopts = Inr (b, full)"
  shows "(full = opt \<and> opt \<in> set longopts) \<or> full @ ''='' \<in> set longopts
         \<or> (full \<in> set longopts \<and> \<not> endswith full ''='')"
proof (cases "filter (\<lambda>o'. startswith o' opt) longopts")
  case Nil
  with assms show ?thesis by (simp add: long_has_args_def)
next
  case (Cons u others)
  have sub: "\<And>x. x \<in> set (u # others) \<Longrightarrow> x \<in> set longopts"
    using Cons [symmetric] by auto
  have u: "u \<in> set longopts" using sub by simp
  show ?thesis
  proof (cases "opt \<in> set (u # others)")
    case True
    with assms Cons have "full = opt" by (simp add: long_has_args_def)
    with True sub show ?thesis by blast
  next
    case False
    note notin = this
    show ?thesis
    proof (cases "opt @ ''='' \<in> set (u # others)")
      case True
      with assms Cons notin have "full = opt" by (simp add: long_has_args_def)
      with True sub show ?thesis by blast
    next
      case False
      with assms Cons notin have r: "others = []"
        "full = (if endswith u ''='' then butlast u else u)"
        by (auto simp: long_has_args_def Let_def split: if_splits)
      show ?thesis
      proof (cases "endswith u ''=''")
        case True
        then have "butlast u @ ''='' = u" by (rule endswith_butlast)
        with r True u show ?thesis by simp
      next
        case False
        with r u show ?thesis by simp
      qed
    qed
  qed
qed

lemma long_has_args_known:
  assumes "long_has_args opt long_opts = Inr (b, full)" and "CHR ''='' \<notin> set opt"
  shows "known_key (''--'' @ full)"
proof -
  from long_has_args_full [OF assms(1)]
  consider "full = opt" "opt \<in> set long_opts" | "full @ ''='' \<in> set long_opts"
    | "full \<in> set long_opts" "\<not> endswith full ''=''"
    by blast
  then show ?thesis
  proof cases
    case 1
    with assms(2) show ?thesis by (auto simp: long_opts_def)
  next
    case 2
    then have "butlast (full @ ''='') \<in> butlast ` set long_opts" by (rule imageI)
    then have "full \<in> butlast ` set long_opts" by (simp add: butlast_append)
    then show ?thesis by (auto simp: long_opts_def known_key_def)
  next
    case 3
    then show ?thesis by (auto simp: long_opts_def endswith_def)
  qed
qed

lemma do_longs_known:
  assumes "do_longs opts s long_opts args = Inr (opts', args')"
    and "\<forall>kv \<in> set opts. known_key (fst kv)"
  shows "\<forall>kv \<in> set opts'. known_key (fst kv)"
proof -
  define opt1 where "opt1 = (if CHR ''='' \<in> set s then takeWhile (\<lambda>c. c \<noteq> CHR ''='') s else s)"
  have noeq: "CHR ''='' \<notin> set opt1"
    by (auto simp: opt1_def dest: set_takeWhileD)
  from assms(1) obtain b full v where
    l: "long_has_args opt1 long_opts = Inr (b, full)" and o: "opts' = opts @ [(''--'' @ full, v)]"
    unfolding do_longs_def opt1_def
    by (auto split: if_splits sum.splits option.splits list.splits prod.splits)
  from long_has_args_known [OF l noeq] o assms(2) show ?thesis by auto
qed


lemma gnu_loop_known:
  "gnu_loop f sh lo opts prog args = Inr (opts', args') \<Longrightarrow>
   sh = short_opts \<Longrightarrow> lo = long_opts \<Longrightarrow>
   \<forall>kv \<in> set opts. known_key (fst kv) \<Longrightarrow> \<forall>kv \<in> set opts'. known_key (fst kv)"
proof (induction f sh lo opts prog args rule: gnu_loop.induct)
  case (1 f sh lo opts prog)
  then show ?case by simp
next
  case (2 f sh lo opts prog a args)
  show ?case
  proof (cases "a = ''--''")
    case True
    with "2.prems" show ?thesis by simp
  next
    case nd: False
    show ?thesis
    proof (cases "take 2 a = ''--''")
      case True
      with nd "2.prems"(1) obtain r where
        r: "do_longs opts (drop 2 a) lo args = Inr r"
        and g: "gnu_loop f sh lo (fst r) prog (snd r) = Inr (opts', args')"
        by (auto split: sum.splits)
      from r have "do_longs opts (drop 2 a) long_opts args = Inr (fst r, snd r)"
        using "2.prems"(3) by simp
      then have "\<forall>kv \<in> set (fst r). known_key (fst kv)"
        using "2.prems"(4) by (rule do_longs_known)
      with "2.IH"(1) [OF nd True r g "2.prems"(2,3)] show ?thesis .
    next
      case nl: False
      show ?thesis
      proof (cases "take 1 a = ''-'' \<and> a \<noteq> ''-''")
        case True
        with nd nl "2.prems"(1) obtain r where
          r: "do_shorts opts (drop 1 a) sh args = Inr r"
          and g: "gnu_loop f sh lo (fst r) prog (snd r) = Inr (opts', args')"
          by (auto split: sum.splits)
        from r have "do_shorts opts (drop 1 a) short_opts args = Inr (fst r, snd r)"
          using "2.prems"(2) by simp
        then have "\<forall>kv \<in> set (fst r). known_key (fst kv)"
          using "2.prems"(4) by (rule do_shorts_known)
        with "2.IH"(2) [OF nd nl True r g "2.prems"(2,3)] show ?thesis .
      next
        case ns: False
        show ?thesis
        proof (cases f)
          case True
          with nd nl ns "2.prems" show ?thesis by auto
        next
          case False
          with nd nl ns "2.prems"(1) have
            "gnu_loop f sh lo opts (prog @ [a]) args = Inr (opts', args')"
            by auto
          from "2.IH"(3) [OF nd nl ns False this "2.prems"(2,3,4)] show ?thesis .
        qed
      qed
    qed
  qed
qed

lemma gnu_getopt_known:
  assumes "gnu_getopt p argv short_opts long_opts = Inr (opts, args)"
  shows "\<forall>kv \<in> set opts. known_key (fst kv)"
proof -
  have "\<not> startswith short_opts ''+''"
    by (simp add: short_opts_def startswith_def)
  with assms obtain f where "gnu_loop f short_opts long_opts [] [] argv = Inr (opts, args)"
    unfolding gnu_getopt_def by (auto split: if_splits)
  from gnu_loop_known [OF this] show ?thesis by simp
qed

subsection \<open>The options\<close>

lemma split_on_not_Nil: "split_on c s \<noteq> []"
  by (induction s) (auto split: list.splits)

lemma listed_Nil_iff: "listed short long opts = [] \<longleftrightarrow> \<not> given short long opts"
  by (induction opts) (auto simp: listed_def given_def split_on_not_Nil)

lemma scan_opt_known:
  assumes "known_key k"
  shows "scan_opt (k, v) (ms, mb, rn) =
           Inr (ms @ listed ''-m'' ''--multistorms'' [(k, v)],
                mb @ listed ''-M'' ''--multibasins'' [(k, v)],
                rn \<and> \<not> given ''-n'' ''--renumber'' [(k, v)])"
  using assms unfolding known_key_def
  by (elim disjE) (simp_all add: scan_opt_def listed_def given_def)

lemma scan_opts_known:
  "\<forall>kv \<in> set opts. known_key (fst kv) \<Longrightarrow>
   scan_opts opts (ms, mb, rn) =
     Inr (ms @ storms_of opts, mb @ basins_of opts, rn \<and> \<not> given ''-n'' ''--renumber'' opts)"
proof (induction opts arbitrary: ms mb rn)
  case Nil
  show ?case by (simp add: storms_of_def basins_of_def listed_def given_def)
next
  case (Cons kv opts)
  obtain k v where kv: "kv = (k, v)" by (cases kv)
  with Cons.prems have k: "known_key k" by simp
  have l: "listed s l ((k, v) # opts) = listed s l [(k, v)] @ listed s l opts" for s l
    by (simp add: listed_def)
  have g: "given s l ((k, v) # opts) = (given s l [(k, v)] \<or> given s l opts)" for s l
    by (simp add: given_def)
  from Cons.prems have "\<forall>kv \<in> set opts. known_key (fst kv)" by simp
  from Cons.IH [OF this] show ?case
    unfolding kv scan_opts.simps scan_opt_known [OF k] storms_of_def basins_of_def
    by (simp add: l g)
qed

section \<open>A cycle, stage by stage\<close>

text \<open>Lines 183 to 260: what follows the resolution of the storm identifiers.\<close>

lemma launch_cycle_stages:
  assumes "\<forall>kv \<in> set opts. known_key (fst kv)" and "args \<noteq> []"
    and "to_datetime w (args ! 0) = Inr cycle"
  shows "launch_cycle w opts args =
           then_act
             ([Log_info (All_opts_args opts args), Log_info (Args_msg (drop 1 args)),
               Log_info (Storm_lists (storms_of opts) (basins_of opts))], Inr ())
             (bind_act
                (resolve_sids w args (storms_of opts) (basins_of opts)
                   (\<not> given ''-n'' ''--renumber'' opts))
                (\<lambda>(multi_sids, go). launch_storms w args cycle multi_sids go))"
  using assms
  unfolding launch_cycle_def
  by (simp add: index_at_def act_defs scan_opts_known [of opts "[]" "[]" True, simplified])

lemma resolve_sids_calls:
  "priority_calls (fst (resolve_sids w args mslist mblist renumber))
     = (if mblist \<noteq> [] then [(args, mblist, mslist \<noteq> [] \<or> renumber)] else [])
   \<and> parse_args_calls (fst (resolve_sids w args mslist mblist renumber)) = []
   \<and> launch_calls (fst (resolve_sids w args mslist mblist renumber)) = []"
  unfolding resolve_sids_def Let_def collab_def usage_def
  by (cases "multistorm_priority w args mblist (mslist \<noteq> [] \<or> renumber)")
     (auto simp: act_defs)

lemma entity_stage_calls:
  "priority_calls (fst (entity_stage w args cycle multi_sids go)) = []
   \<and> parse_args_calls (fst (entity_stage w args cycle multi_sids go))
       = (if go then [(multi_sids, drop 1 args)] else [])"
proof (cases go)
  case True
  show ?thesis
  proof (cases "multistorm_parse_args w multi_sids (drop 1 args)")
    case (Returned x)
    obtain case_root parm infiles stids fake_stid priority_stid moreopts where
      x: "x = (case_root, parm, infiles, stids, fake_stid, priority_stid, moreopts)"
      by (cases x) auto
    show ?thesis
      using True Returned unfolding entity_stage_def collab_def x
      by (auto simp: act_defs index_last_def Let_def fst_bind_act split: sum.splits)
  next
    case Called_usage
    with True show ?thesis
      unfolding entity_stage_def collab_def usage_def by (simp add: act_defs)
  next
    case (Raised e)
    with True show ?thesis
      unfolding entity_stage_def collab_def by (simp add: act_defs)
  qed
next
  case False
  show ?thesis
  proof (cases "parse_launch_args w (drop 1 args)")
    case (Returned x)
    obtain case_root parm infiles stid moreopt where
      x: "x = (case_root, parm, infiles, stid, moreopt)"
      by (cases x) auto
    show ?thesis
      using False Returned unfolding entity_stage_def collab_def x
      by (simp add: act_defs)
  next
    case Called_usage
    with False show ?thesis
      unfolding entity_stage_def collab_def usage_def by (simp add: act_defs)
  next
    case (Raised e)
    with False show ?thesis
      unfolding entity_stage_def collab_def by (simp add: act_defs)
  qed
qed

lemma after_entity_stage_calls:
  "priority_calls (fst (bind_act (launch_loop w cycle es i n c stids) (notify w))) = []
   \<and> parse_args_calls (fst (bind_act (launch_loop w cycle es i n c stids) (notify w))) = []"
proof -
  have "emits_only not_resolver (bind_act (launch_loop w cycle es i n c stids) (notify w))"
  proof (intro emits_only_bind launch_loop_quiet)
    fix x
    show "emits_only not_resolver (notify w x)"
      using notify_quiet [of w x] by (auto simp: emits_only_def)
  qed
  then show ?thesis
    using no_resolver_calls by (auto simp: emits_only_def)
qed

lemma launch_storms_calls:
  "priority_calls (fst (launch_storms w args cycle multi_sids go)) = []
   \<and> parse_args_calls (fst (launch_storms w args cycle multi_sids go))
       = (if go then [(multi_sids, drop 1 args)] else [])"
  using entity_stage_calls [of w args cycle multi_sids go] after_entity_stage_calls [of w cycle]
  unfolding launch_storms_def
  by (auto simp: then_act_def fst_bind_act act_defs split: sum.splits)

lemma fst_then_act:
  "fst (then_act m n) = fst m @ (case snd m of Inl e \<Rightarrow> [] | Inr x \<Rightarrow> fst n)"
  by (simp add: then_act_def fst_bind_act)

lemma snd_then_act:
  "snd (then_act m n) = (case snd m of Inl e \<Rightarrow> Inl e | Inr x \<Rightarrow> snd n)"
  by (simp add: then_act_def snd_bind_act)

lemma main_calls:
  assumes "gnu_getopt (posixly_correct w) argv short_opts long_opts = Inr (opts, args)"
    and "4 \<le> length args" and "to_datetime w (args ! 0) = Inr cycle"
  shows "priority_calls (fst (main w argv))
           = (if basins_of opts \<noteq> []
              then [(args, basins_of opts, storms_of opts \<noteq> [] \<or> \<not> given ''-n'' ''--renumber'' opts)]
              else [])"
    and "\<And>tr multi_sids go.
           resolve_sids w args (storms_of opts) (basins_of opts)
             (\<not> given ''-n'' ''--renumber'' opts) = (tr, Inr (multi_sids, go))
           \<Longrightarrow> parse_args_calls (fst (main w argv))
                 = (if go then [(multi_sids, drop 1 args)] else [])"
proof -
  have k: "\<forall>kv \<in> set opts. known_key (fst kv)"
    using assms(1) by (rule gnu_getopt_known)
  have ne: "args \<noteq> []" using assms(2) by auto
  have m: "main w argv = then_act (emit (Log_info Top_of_launch)) (launch_cycle w opts args)"
    using assms(1,2) by (simp add: main_def checked_cycle_def)
  note st = launch_cycle_stages [OF k ne assms(3)]
  show "priority_calls (fst (main w argv))
           = (if basins_of opts \<noteq> []
              then [(args, basins_of opts, storms_of opts \<noteq> [] \<or> \<not> given ''-n'' ''--renumber'' opts)]
              else [])"
    unfolding m st
    using resolve_sids_calls [of w args "storms_of opts" "basins_of opts"
                                "\<not> given ''-n'' ''--renumber'' opts"]
    by (auto simp: fst_then_act fst_bind_act act_defs launch_storms_calls
             split: sum.splits prod.splits)
  fix tr multi_sids go
  assume r: "resolve_sids w args (storms_of opts) (basins_of opts)
             (\<not> given ''-n'' ''--renumber'' opts) = (tr, Inr (multi_sids, go))"
  show "parse_args_calls (fst (main w argv)) = (if go then [(multi_sids, drop 1 args)] else [])"
    unfolding m st
    using resolve_sids_calls [of w args "storms_of opts" "basins_of opts"
                                "\<not> given ''-n'' ''--renumber'' opts"]
    by (simp add: fst_then_act fst_bind_act act_defs launch_storms_calls r)
qed

section \<open>Argument errors\<close>

text \<open>
  C5. The claim: whenever \<^verbatim>\<open>getopt\<close> rejects the argument list, the program prints the
  usage message and ends with a non-zero exit status. The handler of line 130 prints the
  error text and calls \<^verbatim>\<open>usage\<close> with a string where \<^verbatim>\<open>usage\<close> expects the logger, so
  \<^verbatim>\<open>logger.critical\<close> raises AttributeError before anything of the usage message is printed.
  What the script does on every rejected argument list: it prints the getopt message only,
  the handler of line 268 logs the AttributeError, and the exit status is 2.
\<close>

theorem getopt_error_skips_usage_message:
  "gnu_getopt (posixly_correct w) argv short_opts long_opts = Inl (GetoptError msg) \<Longrightarrow>
   script w argv =
     ([Setup, Postmsg ''exhafs_launch is starting'', Log_info Top_of_launch, Print msg,
       Jlogger_critical (AttributeError ''str'' ''critical'')], 2)"
  by (simp add: script_def main_def usage_def act_defs)

theorem getopt_error_skips_usage_message_witness:
  "script demo_world [''-x''] =
     ([Setup, Postmsg ''exhafs_launch is starting'', Log_info Top_of_launch,
       Print ''option -x not recognized'',
       Jlogger_critical (AttributeError ''str'' ''critical'')], 2)"
proof -
  have "gnu_getopt (posixly_correct demo_world) [''-x''] short_opts long_opts
          = Inl (GetoptError ''option -x not recognized'')"
    by code_simp
  then show ?thesis
    by (rule getopt_error_skips_usage_message)
qed

text \<open>
  C6. With fewer than four positional arguments left by \<^verbatim>\<open>getopt\<close>, the script logs the
  critical message, prints the usage message and exits with status 2 (\<^verbatim>\<open>SystemExit\<close> is
  not caught by the handler of line 268). With exactly four positional arguments and no
  option, \<^verbatim>\<open>main\<close> passes the check of line 135 and goes on with line 138.
\<close>

theorem argument_count_check:
  "(gnu_getopt (posixly_correct w) argv short_opts long_opts = Inr (opts, args)
      \<and> length args < 4
      \<longrightarrow> script w argv =
            ([Setup, Postmsg ''exhafs_launch is starting'', Log_info Top_of_launch,
              Log_critical ''Invalid arguments to exhafs_launch.py.  Aborting.'',
              Print usage_text], 2))
   \<and> (gnu_getopt (posixly_correct w) argv short_opts long_opts = Inr ([], args)
      \<and> length args = 4
      \<longrightarrow> main w argv = then_act (emit (Log_info Top_of_launch)) (launch_cycle w [] args))"
  by (simp add: script_def main_def checked_cycle_def usage_def act_defs)

theorem argument_count_check_witness:
  "script demo_world (take 3 demo_args) =
     ([Setup, Postmsg ''exhafs_launch is starting'', Log_info Top_of_launch,
       Log_critical ''Invalid arguments to exhafs_launch.py.  Aborting.'',
       Print usage_text], 2)
   \<and> main demo_world demo_args =
       then_act (emit (Log_info Top_of_launch)) (launch_cycle demo_world [] demo_args)"
proof -
  have a: "gnu_getopt (posixly_correct demo_world) (take 3 demo_args) short_opts long_opts
             = Inr ([], take 3 demo_args)"
    by code_simp
  have b: "gnu_getopt (posixly_correct demo_world) demo_args short_opts long_opts
             = Inr ([], demo_args)"
    by code_simp
  have c: "length (take 3 demo_args) < 4" "length demo_args = 4"
    by (simp_all add: demo_args_def)
  show ?thesis
    using argument_count_check [of demo_world "take 3 demo_args" "[]" "take 3 demo_args"]
          argument_count_check [of demo_world demo_args "[]" demo_args] a b c
    by blast
qed

section \<open>The ecFlow events\<close>






section \<open>The holdvars files\<close>

lemma write_artifacts_succ:
  assumes "write_artifacts w conf = (tr, Inr u)"
  shows "\<exists>h1 h2 t. strinterp w conf ''dir'' ''{com}/{stormlabel}.holdvars.txt'' [] = Inr h1
           \<and> strinterp w conf ''dir'' ''{com}/{out_prefix}.{RUN}.holdvars.txt'' [] = Inr h2
           \<and> make_holdvars w conf = Inr t
           \<and> file_writes tr = [(h1, t), (h2, t)] @ startfile_writes w conf h1"
  using assms
  unfolding write_artifacts_def write_holdvars_def write_text_def startfile_writes_def
  apply (elim bind_act_InrE then_act_InrE)
  apply (auto simp: act_defs lift_opt_Inr lift_opt_def
              split: if_splits sum.splits option.splits
              elim!: bind_act_InrE then_act_InrE)
  done

text \<open>
  C8. For a storm whose processing in the loop comes to its end, the files written are the
  holdvars file named after the storm label, the holdvars file named after the output
  prefix and the run name, and then the start file if the conf has one; the text of the
  second holdvars file is the text of the first, what \<^verbatim>\<open>make_holdvars\<close> gives for the conf.
\<close>

theorem holdvars_written_twice:
  assumes "process_conf w conf = (tr, Inr u)"
  shows "\<exists>h1 h2 t.
           strinterp w conf ''dir'' ''{com}/{stormlabel}.holdvars.txt'' [] = Inr h1
         \<and> strinterp w conf ''dir'' ''{com}/{out_prefix}.{RUN}.holdvars.txt'' [] = Inr h2
         \<and> make_holdvars w conf = Inr t
         \<and> file_writes tr = [(h1, t), (h2, t)] @ startfile_writes w conf h1"
proof -
  from assms obtain tr0 trn tra where
    n: "nco_alert w conf = (trn, Inr ())" and a: "write_artifacts w conf = (tra, Inr u)"
    and s: "then_act (emit (Call_sanity_check conf)) (lift_opt (sanity_check w conf))
              = (tr0, Inr ())"
    and tr: "tr = tr0 @ trn @ tra"
    unfolding process_conf_def by (elim then_act_InrE) auto
  from s have "tr0 = [Call_sanity_check conf]"
    by (elim then_act_InrE) (auto simp: act_defs lift_opt_Inr)
  then have w0: "file_writes tr0 = []" by simp
  have wn: "file_writes trn = []"
    using nco_alert_quiet [of w conf] n
    by (intro no_file_writes) (auto simp: emits_only_def)
  from write_artifacts_succ [OF a] tr w0 wn show ?thesis by simp
qed

theorem holdvars_written_twice_witness:
  "file_writes (fst (process_conf demo_world demo_conf)) =
     [(''12L:{com}/{stormlabel}.holdvars.txt'', ''stormid3=12L''),
      (''12L:{com}/{out_prefix}.{RUN}.holdvars.txt'', ''stormid3=12L'')]"
proof -
  let ?p = "process_conf demo_world demo_conf"
  have "snd ?p = Inr ()"
    by code_simp
  then have "?p = (fst ?p, Inr ())"
    by (simp add: prod_eq_iff)
  from holdvars_written_twice [OF this] obtain h1 h2 t where
    "strinterp demo_world demo_conf ''dir'' ''{com}/{stormlabel}.holdvars.txt'' [] = Inr h1"
    "strinterp demo_world demo_conf ''dir'' ''{com}/{out_prefix}.{RUN}.holdvars.txt'' [] = Inr h2"
    "make_holdvars demo_world demo_conf = Inr t"
    "file_writes (fst ?p) = [(h1, t), (h2, t)] @ startfile_writes demo_world demo_conf h1"
    by blast
  then show ?thesis
    by (simp add: demo_world_def demo_conf_def startfile_writes_def)
qed

section \<open>The multistorm run\<close>







section \<open>The priority resolver\<close>

lemma append_new_winners: "append_new multi_sids bstorms = multi_sids @ new_winners multi_sids bstorms"
  by (induction bstorms arbitrary: multi_sids) auto

lemma set_new_winners: "set (new_winners present bstorms) = set bstorms - set present"
  by (induction bstorms arbitrary: present) auto

lemma distinct_new_winners: "distinct (new_winners present bstorms)"
  by (induction bstorms arbitrary: present) (auto simp: set_new_winners)

lemma new_winners_filter:
  "distinct bstorms \<Longrightarrow> new_winners present bstorms = filter (\<lambda>b. b \<notin> set present) bstorms"
proof (induction bstorms arbitrary: present)
  case Nil
  show ?case by simp
next
  case (Cons b bstorms)
  then have "filter (\<lambda>x. x \<notin> set (present @ [b])) bstorms
               = filter (\<lambda>x. x \<notin> set present) bstorms"
    by (intro filter_cong) auto
  with Cons show ?case by simp
qed

lemma renumber_passed_eq:
  "(storms_of opts \<noteq> [] \<or> \<not> given ''-n'' ''--renumber'' opts) = renumber_passed opts"
  by (simp add: renumber_passed_def storms_of_def listed_Nil_iff)

lemma resolve_sids_returned:
  assumes "mblist \<noteq> []"
    and "multistorm_priority w args mblist (mslist \<noteq> [] \<or> renumber) = Returned bstorms"
  shows "resolve_sids w args mslist mblist renumber
           = ([Log_info (Rocoto_basins mblist),
               Call_multistorm_priority args mblist (mslist \<noteq> [] \<or> renumber),
               Log_info (Priority_found bstorms)],
              Inr (append_new mslist bstorms, True))"
proof (cases "mslist = []")
  case True
  with assms show ?thesis
    by (simp add: resolve_sids_def collab_def act_defs)
next
  case False
  with assms show ?thesis
    by (simp add: resolve_sids_def collab_def act_defs)
qed

text \<open>
  C3. When a multi-group list \<open>G\<close> is given, the priority resolver is called once, with the
  positional arguments and \<open>G\<close>. The list that comes out of lines 166 to 181 and is handed
  to \<^verbatim>\<open>multistorm_parse_args\<close> is the multi-entity list as given on the command line,
  followed by the winners in the order the resolver returned them, without those already
  present: the appended winners are distinct, none of them is in the multi-entity list,
  and when the resolver returns no storm twice they are its answer filtered by
  membership in the multi-entity list.
\<close>

theorem priority_winners_appended:
  assumes "gnu_getopt (posixly_correct w) argv short_opts long_opts = Inr (opts, args)"
    and "given ''-M'' ''--multibasins'' opts"
    and "4 \<le> length args"
    and "to_datetime w (args ! 0) = Inr cycle"
    and "multistorm_priority w args (basins_of opts) (renumber_passed opts) = Returned bstorms"
  shows "priority_calls (fst (main w argv)) = [(args, basins_of opts, renumber_passed opts)]
       \<and> parse_args_calls (fst (main w argv))
           = [(storms_of opts @ new_winners (storms_of opts) bstorms, drop 1 args)]
       \<and> distinct (new_winners (storms_of opts) bstorms)
       \<and> set (new_winners (storms_of opts) bstorms) = set bstorms - set (storms_of opts)
       \<and> (distinct bstorms \<longrightarrow>
            new_winners (storms_of opts) bstorms
              = filter (\<lambda>b. b \<notin> set (storms_of opts)) bstorms)"
proof -
  have b: "basins_of opts \<noteq> []"
    using assms(2) by (simp add: basins_of_def listed_Nil_iff)
  have p: "priority_calls (fst (main w argv)) = [(args, basins_of opts, renumber_passed opts)]"
    using main_calls(1) [OF assms(1,3,4)] b renumber_passed_eq [of opts] by auto
  have "multistorm_priority w args (basins_of opts)
          (storms_of opts \<noteq> [] \<or> \<not> given ''-n'' ''--renumber'' opts) = Returned bstorms"
    using assms(5) renumber_passed_eq [of opts] by simp
  from resolve_sids_returned [OF b this] have
    "resolve_sids w args (storms_of opts) (basins_of opts) (\<not> given ''-n'' ''--renumber'' opts)
       = ([Log_info (Rocoto_basins (basins_of opts)),
           Call_multistorm_priority args (basins_of opts)
             (storms_of opts \<noteq> [] \<or> \<not> given ''-n'' ''--renumber'' opts),
           Log_info (Priority_found bstorms)],
          Inr (append_new (storms_of opts) bstorms, True))" .
  from main_calls(2) [OF assms(1,3,4) this] have
    "parse_args_calls (fst (main w argv))
       = [(storms_of opts @ new_winners (storms_of opts) bstorms, drop 1 args)]"
    by (simp add: append_new_winners)
  with p show ?thesis
    by (simp add: distinct_new_winners set_new_winners new_winners_filter)
qed

theorem priority_winners_appended_witness:
  "priority_calls (fst (main demo_world (''-m'' # ''18E,07L'' # ''-M'' # ''L,E'' # demo_args)))
     = [(demo_args, [''L'', ''E''], True)]
   \<and> parse_args_calls
       (fst (main demo_world (''-m'' # ''18E,07L'' # ''-M'' # ''L,E'' # demo_args)))
     = [([''18E'', ''07L'', ''09L''], [''12L'', ''HISTORY'', ''/parm''])]"
proof -
  let ?argv = "''-m'' # ''18E,07L'' # ''-M'' # ''L,E'' # demo_args"
  let ?opts = "[(''-m'', ''18E,07L''), (''-M'', ''L,E'')]"
  have g: "gnu_getopt (posixly_correct demo_world) ?argv short_opts long_opts
             = Inr (?opts, demo_args)"
    by code_simp
  have m: "given ''-M'' ''--multibasins'' ?opts"
    by code_simp
  have l: "4 \<le> length demo_args"
    by (simp add: demo_args_def)
  have d: "to_datetime demo_world (demo_args ! 0) = Inr ''2014062400''"
    by (simp add: demo_world_def demo_args_def)
  have r: "multistorm_priority demo_world demo_args (basins_of ?opts) (renumber_passed ?opts)
             = Returned [''09L'', ''18E'']"
    by (simp add: demo_world_def)
  have e: "basins_of ?opts = [''L'', ''E'']" "renumber_passed ?opts"
          "storms_of ?opts @ new_winners (storms_of ?opts) [''09L'', ''18E'']
             = [''18E'', ''07L'', ''09L'']"
          "drop 1 demo_args = [''12L'', ''HISTORY'', ''/parm'']"
    by code_simp+
  from priority_winners_appended [OF g m l d r] e show ?thesis
    by simp
qed

text \<open>
  C4. When both a multi-entity list and a multi-group list are given, the priority resolver
  is called with \<^verbatim>\<open>renumber=True\<close>, whether or not \<^verbatim>\<open>-n\<close> is among the options.
\<close>

theorem renumber_forced_with_both_lists:
  assumes "gnu_getopt (posixly_correct w) argv short_opts long_opts = Inr (opts, args)"
    and "given ''-m'' ''--multistorms'' opts"
    and "given ''-M'' ''--multibasins'' opts"
    and "4 \<le> length args"
    and "to_datetime w (args ! 0) = Inr cycle"
  shows "priority_calls (fst (main w argv)) = [(args, basins_of opts, True)]"
proof -
  have "basins_of opts \<noteq> []" "storms_of opts \<noteq> []"
    using assms(2,3) by (simp_all add: basins_of_def storms_of_def listed_Nil_iff)
  with main_calls(1) [OF assms(1,4,5)] show ?thesis
    by simp
qed

theorem renumber_forced_with_both_lists_witness:
  "priority_calls
     (fst (main demo_world (''-n'' # ''-m'' # ''09L'' # ''--multibasins=L,E'' # demo_args)))
     = [(demo_args, [''L'', ''E''], True)]"
proof -
  let ?argv = "''-n'' # ''-m'' # ''09L'' # ''--multibasins=L,E'' # demo_args"
  let ?opts = "[(''-n'', ''''), (''-m'', ''09L''), (''--multibasins'', ''L,E'')]"
  have g: "gnu_getopt (posixly_correct demo_world) ?argv short_opts long_opts
             = Inr (?opts, demo_args)"
    by code_simp
  have m: "given ''-m'' ''--multistorms'' ?opts" "given ''-M'' ''--multibasins'' ?opts"
    by code_simp+
  have l: "4 \<le> length demo_args"
    by (simp add: demo_args_def)
  have d: "to_datetime demo_world (demo_args ! 0) = Inr ''2014062400''"
    by (simp add: demo_world_def demo_args_def)
  have e: "basins_of ?opts = [''L'', ''E'']"
    by code_simp
  from renumber_forced_with_both_lists [OF g m l d] e show ?thesis
    by simp
qed

section \<open>The run for one storm\<close>

lemma main_single:
  assumes "gnu_getopt (posixly_correct w) argv short_opts long_opts = Inr (opts, args)"
    and "\<not> given ''-m'' ''--multistorms'' opts"
    and "\<not> given ''-M'' ''--multibasins'' opts"
    and "4 \<le> length args"
    and "to_datetime w (args ! 0) = Inr cycle"
  shows "main w argv =
           then_act
             ([Log_info Top_of_launch, Log_info (All_opts_args opts args),
               Log_info (Args_msg (drop 1 args)), Log_info (Storm_lists [] [])], Inr ())
             (launch_storms w args cycle [] False)"
proof -
  have k: "\<forall>kv \<in> set opts. known_key (fst kv)"
    using assms(1) by (rule gnu_getopt_known)
  have ne: "args \<noteq> []" using assms(4) by auto
  have e: "storms_of opts = []" "basins_of opts = []"
    using assms(2,3) by (simp_all add: storms_of_def basins_of_def listed_Nil_iff)
  have m: "main w argv = then_act (emit (Log_info Top_of_launch)) (launch_cycle w opts args)"
    using assms(1,4) by (simp add: main_def checked_cycle_def)
  show ?thesis
    unfolding m launch_cycle_stages [OF k ne assms(5)] e
    by (simp add: resolve_sids_def act_defs)
qed

lemma entity_stage_single:
  assumes "parse_launch_args w (drop 1 args) = Returned (case_root, parm, infiles, stid, moreopt)"
  shows "entity_stage w args cycle multi_sids False =
           ([Call_parse_launch_args (drop 1 args),
             Log_info (Requested_storm stid cycle case_root)],
            Inr (single_entity_set case_root infiles stid moreopt))"
  using assms by (simp add: entity_stage_def collab_def act_defs single_entity_set_def)

lemma launch_loop_single:
  "launch_loop w cycle (single_entity_set case_root infiles stid moreopt) 0 0 None [stid] =
     bind_act
       (then_act
          (emit (Call_launch
                   (loop_call cycle (single_entity_set case_root infiles stid moreopt) 1 0 stid)))
          (lift (launch w
                   (loop_call cycle (single_entity_set case_root infiles stid moreopt) 1 0 stid))))
       (\<lambda>conf. then_act (process_conf w conf) (ret (Some conf)))"
  by (simp add: single_entity_set_def loop_call_def index_at_def act_defs Let_def)

lemma single_launch_calls:
  assumes "gnu_getopt (posixly_correct w) argv short_opts long_opts = Inr (opts, args)"
    and "\<not> given ''-m'' ''--multistorms'' opts"
    and "\<not> given ''-M'' ''--multibasins'' opts"
    and "4 \<le> length args"
    and "to_datetime w (args ! 0) = Inr cycle"
    and "parse_launch_args w (drop 1 args) = Returned (case_root, parm, infiles, stid, moreopt)"
  shows "launch_calls (fst (main w argv))
           = [loop_call cycle (single_entity_set case_root infiles stid moreopt) 1 0 stid]"
proof -
  let ?es = "single_entity_set case_root infiles stid moreopt :: 'a entity_set"
  let ?call = "loop_call cycle ?es 1 0 stid"
  have p: "launch_calls (fst (process_conf w conf)) = []" for conf
    using process_conf_quiet [of w conf]
    by (intro no_launch_calls) (auto simp: emits_only_def)
  have n: "launch_calls (fst (notify w c)) = []" for c
    using notify_quiet [of w c]
    by (intro no_launch_calls) (auto simp: emits_only_def)
  have l: "launch_loop w cycle ?es 0 (es_global_storm_num ?es) None (es_stids ?es)
             = launch_loop w cycle ?es 0 0 None [stid]"
    by (simp add: single_entity_set_def)
  have ll: "launch_loop w cycle ?es 0 (es_global_storm_num ?es) None (es_stids ?es)
             = bind_act (then_act (emit (Call_launch ?call)) (lift (launch w ?call)))
                 (\<lambda>conf. then_act (process_conf w conf) (ret (Some conf)))"
    unfolding l by (rule launch_loop_single)
  have "launch_calls (fst (launch_storms w args cycle [] False)) = [?call]"
    unfolding launch_storms_def entity_stage_single [OF assms(6)]
    by (cases "launch w ?call")
       (simp_all add: ll fst_then_act fst_bind_act snd_then_act snd_bind_act
                      act_defs p n split: sum.splits del: launch_loop.simps)
  then show ?thesis
    unfolding main_single [OF assms(1-5)]
    by (simp add: fst_then_act)
qed

text \<open>
  C1, as the script has it. In a run without \<^verbatim>\<open>-m\<close> and without \<^verbatim>\<open>-M\<close> whose arguments
  parse, the entity set is the one storm of the command line and there is no fake storm:
  \<^verbatim>\<open>multistorm_parse_args\<close> is never called, and the only launch call is the one for that
  storm, without \<^verbatim>\<open>fakestorm\<close>, without a fake conf, and with storm number 1. The counter
  starts at 0 and is incremented once before the call, as the comment of lines 209 to 211
  says; storm number 2 is the number of the first real storm of a multistorm run.
\<close>

theorem single_storm_has_number_one:
  assumes "gnu_getopt (posixly_correct w) argv short_opts long_opts = Inr (opts, args)"
    and "\<not> given ''-m'' ''--multistorms'' opts"
    and "\<not> given ''-M'' ''--multibasins'' opts"
    and "4 \<le> length args"
    and "to_datetime w (args ! 0) = Inr cycle"
    and "parse_launch_args w (drop 1 args) = Returned (case_root, parm, infiles, stid, moreopt)"
  shows "snd (entity_stage w args cycle [] False)
           = Inr (single_entity_set case_root infiles stid moreopt)
       \<and> parse_args_calls (fst (main w argv)) = []
       \<and> launch_calls (fst (main w argv))
           = [\<lparr>lc_infiles = infiles, lc_cycle = cycle, lc_stid = stid, lc_moreopt = moreopt,
               lc_case_root = case_root, lc_fakestorm = False, lc_fakestorm_conf = None,
               lc_storm_num = 1\<rparr>]"
proof -
  have "parse_args_calls (fst (launch_storms w args cycle [] False)) = []"
    using launch_storms_calls [of w args cycle "[]" False] by simp
  then have "parse_args_calls (fst (main w argv)) = []"
    unfolding main_single [OF assms(1-5)] by (simp add: fst_then_act)
  with single_launch_calls [OF assms] entity_stage_single [OF assms(6)] show ?thesis
    by (simp add: loop_call_def single_entity_set_def)
qed

theorem single_storm_has_number_one_witness:
  "launch_calls (fst (main demo_world demo_args))
     = [\<lparr>lc_infiles = [], lc_cycle = ''2014062400'', lc_stid = ''12L'', lc_moreopt = [],
         lc_case_root = ''HISTORY'', lc_fakestorm = False, lc_fakestorm_conf = None,
         lc_storm_num = 1\<rparr>]"
proof -
  have g: "gnu_getopt (posixly_correct demo_world) demo_args short_opts long_opts
             = Inr ([], demo_args)"
    by code_simp
  have m: "\<not> given ''-m'' ''--multistorms'' []" "\<not> given ''-M'' ''--multibasins'' []"
    by (simp_all add: given_def)
  have l: "4 \<le> length demo_args"
    by (simp add: demo_args_def)
  have d: "to_datetime demo_world (demo_args ! 0) = Inr ''2014062400''"
    by (simp add: demo_world_def demo_args_def)
  have p: "parse_launch_args demo_world (drop 1 demo_args)
             = Returned (''HISTORY'', ''/parm'', [], ''12L'', [])"
    by (simp add: demo_world_def demo_args_def)
  from single_storm_has_number_one [OF g m l d p] show ?thesis
    by simp
qed

theorem single_storm_number_two_counterexample:
  "map lc_storm_num (launch_calls (fst (main demo_world demo_args))) = [1]
   \<and> map lc_storm_num (launch_calls (fst (main demo_world demo_args))) \<noteq> [2]"
  by code_simp

text \<open>
  C10. In a run without \<^verbatim>\<open>-m\<close> and without \<^verbatim>\<open>-M\<close> whose arguments parse, the fake storm's
  identifier and the fake storm's conf are still None when the loop starts. The loop then
  runs its body once, and what it runs is the launch branch: one launch call, with
  \<^verbatim>\<open>fakestorm_conf=None\<close>, then the processing of the conf that call returns. No other
  launch call is made in the run.
\<close>

theorem single_storm_never_reuses_fake_conf:
  assumes "gnu_getopt (posixly_correct w) argv short_opts long_opts = Inr (opts, args)"
    and "\<not> given ''-m'' ''--multistorms'' opts"
    and "\<not> given ''-M'' ''--multibasins'' opts"
    and "4 \<le> length args"
    and "to_datetime w (args ! 0) = Inr cycle"
    and "parse_launch_args w (drop 1 args) = Returned (case_root, parm, infiles, stid, moreopt)"
    and "es = single_entity_set case_root infiles stid moreopt"
  shows "main w argv =
           then_act
             ([Log_info Top_of_launch, Log_info (All_opts_args opts args),
               Log_info (Args_msg (drop 1 args)), Log_info (Storm_lists [] [])], Inr ())
             (launch_storms w args cycle [] False)
       \<and> snd (entity_stage w args cycle [] False) = Inr es
       \<and> es_fake_stid es = None \<and> es_fakestorm_conf es = None
       \<and> launch_loop w cycle es 0 (es_global_storm_num es) None (es_stids es) =
           bind_act
             (then_act (emit (Call_launch (loop_call cycle es 1 0 stid)))
                (lift (launch w (loop_call cycle es 1 0 stid))))
             (\<lambda>conf. then_act (process_conf w conf) (ret (Some conf)))
       \<and> map lc_fakestorm_conf (launch_calls (fst (main w argv))) = [None]"
proof -
  have l: "launch_loop w cycle es 0 (es_global_storm_num es) None (es_stids es)
             = launch_loop w cycle es 0 0 None [stid]"
    by (simp add: assms(7) single_entity_set_def)
  have f: "es_fake_stid es = None" "es_fakestorm_conf es = None"
    by (simp_all add: assms(7) single_entity_set_def)
  have c: "map lc_fakestorm_conf (launch_calls (fst (main w argv))) = [None]"
    using single_launch_calls [OF assms(1-6)]
    by (simp add: loop_call_def single_entity_set_def)
  show ?thesis
    using main_single [OF assms(1-5)] entity_stage_single [OF assms(6)] f c
    unfolding l unfolding assms(7) launch_loop_single
    by simp
qed

theorem single_storm_never_reuses_fake_conf_witness:
  "map (\<lambda>c. (lc_stid c, lc_fakestorm_conf c))
     (launch_calls (fst (main demo_world (''-n'' # demo_args)))) = [(''12L'', None)]
   \<and> snd (entity_stage demo_world demo_args ''2014062400'' [] False)
       = Inr (single_entity_set ''HISTORY'' [] ''12L'' [])"
proof -
  have g: "gnu_getopt (posixly_correct demo_world) (''-n'' # demo_args) short_opts long_opts
             = Inr ([(''-n'', [])], demo_args)"
    by code_simp
  have m: "\<not> given ''-m'' ''--multistorms'' [(''-n'', [])]"
          "\<not> given ''-M'' ''--multibasins'' [(''-n'', [])]"
    by (simp_all add: given_def)
  have l: "4 \<le> length demo_args"
    by (simp add: demo_args_def)
  have d: "to_datetime demo_world (demo_args ! 0) = Inr ''2014062400''"
    by (simp add: demo_world_def demo_args_def)
  have p: "parse_launch_args demo_world (drop 1 demo_args)
             = Returned (''HISTORY'', ''/parm'', [], ''12L'', [])"
    by (simp add: demo_world_def demo_args_def)
  have s: "map lc_stid (launch_calls (fst (main demo_world (''-n'' # demo_args)))) = [''12L'']"
    by code_simp
  from single_storm_never_reuses_fake_conf [OF g m l d p refl] s show ?thesis
    by (auto simp: map_eq_Cons_conv)
qed

section \<open>The renumber flag\<close>

lemma listed_renumber_free:
  assumes "short \<noteq> ''-n''" "short \<noteq> ''--renumber''" "long \<noteq> ''-n''" "long \<noteq> ''--renumber''"
  shows "listed short long (renumber_free opts) = listed short long opts"
  using assms by (induction opts) (auto simp: listed_def renumber_free_def)

lemma lists_renumber_free:
  "storms_of (renumber_free opts) = storms_of opts"
  "basins_of (renumber_free opts) = basins_of opts"
  by (simp_all add: storms_of_def basins_of_def listed_renumber_free)

lemma launch_cycle_without_basins:
  assumes "\<forall>kv \<in> set opts. known_key (fst kv)" and "basins_of opts = []"
  shows "map hide_opts (fst (launch_cycle w opts args))
           = (case args of
                [] \<Rightarrow> []
              | arg0 # rest \<Rightarrow>
                  (case to_datetime w arg0 of
                     Inl e \<Rightarrow> []
                   | Inr cycle \<Rightarrow>
                       map hide_opts
                         (fst (then_act
                                 ([Log_info (All_opts_args [] args),
                                   Log_info (Args_msg (drop 1 args)),
                                   Log_info (Storm_lists (storms_of opts) [])], Inr ())
                                 (launch_storms w args cycle (storms_of opts)
                                    (storms_of opts \<noteq> []))))))"
    and "snd (launch_cycle w opts args)
           = (case args of
                [] \<Rightarrow> Inl IndexError
              | arg0 # rest \<Rightarrow>
                  (case to_datetime w arg0 of
                     Inl e \<Rightarrow> Inl e
                   | Inr cycle \<Rightarrow>
                       snd (launch_storms w args cycle (storms_of opts)
                              (storms_of opts \<noteq> []))))"
proof -
  show "map hide_opts (fst (launch_cycle w opts args))
           = (case args of
                [] \<Rightarrow> []
              | arg0 # rest \<Rightarrow>
                  (case to_datetime w arg0 of
                     Inl e \<Rightarrow> []
                   | Inr cycle \<Rightarrow>
                       map hide_opts
                         (fst (then_act
                                 ([Log_info (All_opts_args [] args),
                                   Log_info (Args_msg (drop 1 args)),
                                   Log_info (Storm_lists (storms_of opts) [])], Inr ())
                                 (launch_storms w args cycle (storms_of opts)
                                    (storms_of opts \<noteq> []))))))"
  proof (cases args)
    case Nil
    then show ?thesis by (simp add: launch_cycle_def index_at_def act_defs)
  next
    case (Cons arg0 rest)
    show ?thesis
    proof (cases "to_datetime w arg0")
      case (Inl e)
      with Cons show ?thesis by (simp add: launch_cycle_def index_at_def act_defs)
    next
      case (Inr cycle)
      have ne: "args \<noteq> []" and d: "to_datetime w (args ! 0) = Inr cycle"
        using Cons Inr by simp_all
      show ?thesis
        unfolding launch_cycle_stages [OF assms(1) ne d] assms(2)
        using Cons Inr by (simp add: resolve_sids_def act_defs)
    qed
  qed
  show "snd (launch_cycle w opts args)
           = (case args of
                [] \<Rightarrow> Inl IndexError
              | arg0 # rest \<Rightarrow>
                  (case to_datetime w arg0 of
                     Inl e \<Rightarrow> Inl e
                   | Inr cycle \<Rightarrow>
                       snd (launch_storms w args cycle (storms_of opts)
                              (storms_of opts \<noteq> []))))"
  proof (cases args)
    case Nil
    then show ?thesis by (simp add: launch_cycle_def index_at_def act_defs)
  next
    case (Cons arg0 rest)
    show ?thesis
    proof (cases "to_datetime w arg0")
      case (Inl e)
      with Cons show ?thesis by (simp add: launch_cycle_def index_at_def act_defs)
    next
      case (Inr cycle)
      have ne: "args \<noteq> []" and d: "to_datetime w (args ! 0) = Inr cycle"
        using Cons Inr by simp_all
      show ?thesis
        unfolding launch_cycle_stages [OF assms(1) ne d] assms(2)
        using Cons Inr by (simp add: resolve_sids_def act_defs)
    qed
  qed
qed

lemma hide_opts_fixed:
  "hide_opts Setup = Setup" "hide_opts (Postmsg s) = Postmsg s"
  "hide_opts (Jlogger_critical e) = Jlogger_critical e"
  "hide_opts (Log_info Top_of_launch) = Log_info Top_of_launch"
  by simp_all

lemma script_hidden:
  assumes "map hide_opts (fst (main w argv1)) = map hide_opts (fst (main w argv2))"
    and "snd (main w argv1) = snd (main w argv2)"
  shows "map hide_opts (fst (script w argv1)) = map hide_opts (fst (script w argv2))
       \<and> snd (script w argv1) = snd (script w argv2)"
proof (cases "snd (main w argv2)")
  case (Inl e)
  with assms show ?thesis
    by (cases e)
       (simp_all add: script_def fst_then_act snd_then_act act_defs split: prod.splits)
next
  case (Inr u)
  with assms show ?thesis
    by (simp add: script_def fst_then_act snd_then_act act_defs split: prod.splits)
qed

text \<open>
  C9, as the script has it. Take two command lines that \<^verbatim>\<open>getopt\<close> parses into the same
  positional arguments and into option lists that differ only in their \<^verbatim>\<open>-n\<close> and
  \<^verbatim>\<open>--renumber\<close> entries, with no \<^verbatim>\<open>-M\<close> among the options. The two runs end the same way,
  with the same exit status, and leave the same trace but for one record: the log record
  of line 140 echoes the option list, and so shows the flag. The value of \<^verbatim>\<open>renumber\<close>
  itself reaches nothing but the priority resolver, which is not called.
\<close>

theorem renumber_flag_shows_only_in_log:
  assumes "gnu_getopt (posixly_correct w) argv1 short_opts long_opts = Inr (opts1, args)"
    and "gnu_getopt (posixly_correct w) argv2 short_opts long_opts = Inr (opts2, args)"
    and "renumber_free opts1 = renumber_free opts2"
    and "\<not> given ''-M'' ''--multibasins'' opts1"
  shows "map hide_opts (fst (script w argv1)) = map hide_opts (fst (script w argv2))
       \<and> snd (script w argv1) = snd (script w argv2)"
proof -
  have k1: "\<forall>kv \<in> set opts1. known_key (fst kv)"
    using assms(1) by (rule gnu_getopt_known)
  have k2: "\<forall>kv \<in> set opts2. known_key (fst kv)"
    using assms(2) by (rule gnu_getopt_known)
  have s: "storms_of opts1 = storms_of opts2"
    using lists_renumber_free(1) [of opts1] lists_renumber_free(1) [of opts2] assms(3) by simp
  have b1: "basins_of opts1 = []"
    using assms(4) by (simp add: basins_of_def listed_Nil_iff)
  have b2: "basins_of opts2 = []"
    using lists_renumber_free(2) [of opts1] lists_renumber_free(2) [of opts2] assms(3) b1
    by simp
  have c: "map hide_opts (fst (launch_cycle w opts1 args))
             = map hide_opts (fst (launch_cycle w opts2 args))"
          "snd (launch_cycle w opts1 args) = snd (launch_cycle w opts2 args)"
    unfolding launch_cycle_without_basins [OF k1 b1] launch_cycle_without_basins [OF k2 b2] s
    by simp_all
  have m: "main w argv1 = then_act (emit (Log_info Top_of_launch)) (checked_cycle w opts1 args)"
          "main w argv2 = then_act (emit (Log_info Top_of_launch)) (checked_cycle w opts2 args)"
    using assms(1,2) by (simp_all add: main_def)
  have "map hide_opts (fst (main w argv1)) = map hide_opts (fst (main w argv2))
        \<and> snd (main w argv1) = snd (main w argv2)"
    unfolding m using c
    by (simp add: checked_cycle_def fst_then_act snd_then_act act_defs)
  then show ?thesis
    using script_hidden by blast
qed

theorem renumber_flag_shows_only_in_log_witness:
  "map hide_opts (fst (script demo_world (''-n'' # ''-m'' # ''09L,18E'' # demo_args)))
     = map hide_opts (fst (script demo_world (''-m'' # ''09L,18E'' # demo_args)))
   \<and> snd (script demo_world (''-n'' # ''-m'' # ''09L,18E'' # demo_args))
     = snd (script demo_world (''-m'' # ''09L,18E'' # demo_args))"
proof -
  have g1: "gnu_getopt (posixly_correct demo_world) (''-n'' # ''-m'' # ''09L,18E'' # demo_args)
              short_opts long_opts
            = Inr ([(''-n'', []), (''-m'', ''09L,18E'')], demo_args)"
    by code_simp
  have g2: "gnu_getopt (posixly_correct demo_world) (''-m'' # ''09L,18E'' # demo_args)
              short_opts long_opts
            = Inr ([(''-m'', ''09L,18E'')], demo_args)"
    by code_simp
  have r: "renumber_free [(''-n'', []), (''-m'', ''09L,18E'')]
             = renumber_free [(''-m'', ''09L,18E'')]"
    by (simp add: renumber_free_def)
  have m: "\<not> given ''-M'' ''--multibasins'' [(''-n'', []), (''-m'', ''09L,18E'')]"
    by (simp add: given_def)
  from renumber_flag_shows_only_in_log [OF g1 g2 r m] show ?thesis .
qed

text \<open>Two pairs of command lines that differ in the flag only: \<^verbatim>\<open>-n\<close> changes the log
  record of line 140; \<^verbatim>\<open>--renumber\<close>, declared as \<^verbatim>\<open>renumber=\<close> in \<open>long_opts\<close>, takes the
  cycle as its value, and the run ends in \<^verbatim>\<open>usage\<close> for want of a fourth argument.\<close>

theorem renumber_flag_counterexample:
  "fst (script demo_world (''-n'' # demo_args)) \<noteq> fst (script demo_world demo_args)
   \<and> snd (script demo_world (''--renumber'' # demo_args)) = 2
   \<and> snd (script demo_world demo_args) = 0"
  by code_simp

end
